theory Spec2Isabelle
  imports
    Complex_Main
    "HOL-Library.List_Lexorder"
    "HOL-Library.Product_Lexorder"
    "HOL-Library.Sublist"
    "HOL-Library.Multiset"
begin

section \<open>Common conventions\<close>

text \<open>
  Python floats and numpy float32 values are modelled as \<^typ>\<open>real\<close>: rounding, overflow,
  infinities and NaN are outside the model. Python integers are \<^typ>\<open>int\<close>. Every
  exception the modelled code can raise is a constructor of \<open>error\<close>, and a function that
  can raise returns \<open>error + 'a\<close> with \<open>Inl\<close> for the exception.
\<close>

datatype error =
    IndexNotReady            \<comment> \<open>\<open>RuntimeError("Index not loaded. Call load_index() first.")\<close>\<close>
  | IndexMissing             \<comment> \<open>\<open>RuntimeError("FAISS index missing. Run build_index() first.")\<close>\<close>
  | FileNotFoundError string \<comment> \<open>\<open>open\<close> of a path that does not exist\<close>
  | IdMapKeyError int        \<comment> \<open>\<open>KeyError\<close> of \<open>self.id_map[str(idx)]\<close>\<close>
  | MetadataKeyError string  \<comment> \<open>\<open>KeyError\<close> of \<open>self.metadata[doc_id]\<close>\<close>
  | ValueError               \<comment> \<open>\<open>np.vstack\<close> on no rows or on rows of different length; \<open>math.log\<close> of a non-positive number\<close>
  | AssertionError           \<comment> \<open>the assertions of faiss' \<open>search\<close> wrapper\<close>
  | ZeroDivisionError        \<comment> \<open>a division whose divisor is zero\<close>
  | UnicodeDecodeError       \<comment> \<open>reading a file that is not UTF-8 through \<open>encoding="utf-8"\<close>\<close>
  | JSONDecodeError          \<comment> \<open>\<open>json.load\<close> of a text that is not JSON\<close>
  | RecursionError           \<comment> \<open>\<open>json.load\<close> of a text nested too deeply\<close>
  | AxisError                \<comment> \<open>\<open>np.linalg.norm(..., axis=1)\<close> of an array of one dimension\<close>

text \<open>Python's \<open>xs[:k]\<close>: a negative \<open>k\<close> counts from the end of the list.\<close>

definition slice_to :: "'a list \<Rightarrow> int \<Rightarrow> 'a list" where
  "slice_to xs k = (if 0 \<le> k then take (nat k) xs else take (nat (int (length xs) + k)) xs)"

text \<open>
  Python's \<open>sorted(xs, key=f, reverse=True)\<close>. CPython reverses the list, sorts it with a
  stable ascending sort, and reverses the result, which keeps elements of equal key in
  their original order. \<^const>\<open>sort_key\<close> is a stable ascending sort.
\<close>

definition sorted_reverse :: "('a \<Rightarrow> 'k::linorder) \<Rightarrow> 'a list \<Rightarrow> 'a list" where
  "sorted_reverse f xs = rev (sort_key f (rev xs))"

text \<open>
  Checked arithmetic: Python's \<open>/\<close> raises on a zero divisor and \<open>math.log\<close> raises on a
  non-positive argument. (numpy's division would produce an infinity or NaN instead of
  raising; the model flags that division too, so that its absence can be stated.)
\<close>

definition truediv :: "real \<Rightarrow> real \<Rightarrow> error + real" where
  "truediv x y = (if y = 0 then Inl ZeroDivisionError else Inr (x / y))"

definition math_log :: "real \<Rightarrow> error + real" where
  "math_log x = (if x \<le> 0 then Inl ValueError else Inr (ln x))"

section \<open>ranker.py\<close>

record candidate =
  c_doc_id :: string
  c_score :: real
  c_path :: string

text \<open>\<open>Ranker.rerank\<close>: \<open>sorted(results, key=lambda x: x["score"], reverse=True)[:top_k]\<close>.\<close>

definition rerank :: "candidate list \<Rightarrow> int \<Rightarrow> candidate list" where
  "rerank results top_k =
     (let ranked = sorted_reverse c_score results
      in slice_to ranked top_k)"

section \<open>explainer.py\<close>

text \<open>
  The explainer reads the characters of a text, so here a text is its sequence of Unicode
  code points (\<open>ustring\<close>), and such sequences compare as Python compares strings: lexicographically, by code
  point. Which code points the pattern \<open>\w\<close> matches and what \<open>str.lower\<close> returns are
  tables of the Python runtime; they are the two fields of the parameter \<open>u\<close> of the
  functions below.
\<close>

type_synonym ustring = "nat list"

record unicode =
  is_word :: "nat \<Rightarrow> bool"
  str_lower :: "ustring \<Rightarrow> ustring"

text \<open>A literal of the source as a sequence of code points.\<close>

definition codepoints :: "string \<Rightarrow> ustring" where
  "codepoints s = map of_char s"

definition STOPWORDS :: "ustring list" where
  "STOPWORDS = map codepoints
     [''the'', ''is'', ''in'', ''and'', ''of'', ''a'', ''an'', ''to'', ''for'', ''on'', ''with'', ''that'',
      ''this'', ''it'', ''as'', ''are'', ''be'', ''by'', ''or'', ''from'', ''at'', ''was'', ''which'', ''we'', ''you'']"

text \<open>\<open>_TOKEN_RE.findall\<close>: \<open>cur\<close> is the run of word characters read so far.\<close>

fun findall_words :: "unicode \<Rightarrow> ustring \<Rightarrow> ustring \<Rightarrow> ustring list" where
  "findall_words u cur [] = (if cur = [] then [] else [cur])"
| "findall_words u cur (c # cs) =
     (if is_word u c then findall_words u (cur @ [c]) cs
      else if cur = [] then findall_words u [] cs
      else cur # findall_words u [] cs)"

definition simple_tokenize :: "unicode \<Rightarrow> ustring \<Rightarrow> ustring list" where
  "simple_tokenize u txt =
     (if txt = [] then [] else findall_words u [] (str_lower u txt))"

definition extract_keywords :: "unicode \<Rightarrow> ustring \<Rightarrow> bool \<Rightarrow> ustring list" where
  "extract_keywords u txt use_stopwords =
     (let tokens = simple_tokenize u txt
      in if use_stopwords then filter (\<lambda>t. t \<notin> set STOPWORDS) tokens else tokens)"

text \<open>
  \<open>keyword_overlap\<close>. A Python \<open>set\<close> is modelled as a duplicate-free list, which fixes one
  iteration order; Python leaves that order open, and the result is shown below not to
  depend on it. The sort key is the pair \<open>(-(x in d_set), x)\<close>, where \<open>-True\<close> is \<open>-1\<close>;
  pairs compare lexicographically.
\<close>

definition keyword_overlap :: "unicode \<Rightarrow> ustring \<Rightarrow> ustring \<Rightarrow> int \<Rightarrow> error + (ustring list \<times> real)" where
  "keyword_overlap u query doc_text top_n =
     (let q_keywords = extract_keywords u query True
      in if q_keywords = [] then Inr ([], 0)
         else
           let q_set = remdups q_keywords;
               d_keywords = extract_keywords u doc_text True;
               d_set = remdups d_keywords;
               overlap = filter (\<lambda>x. x \<in> set d_set) q_set;
               overlap_list = sort_key (\<lambda>x. (- (if x \<in> set d_set then 1 else 0 :: int), x)) overlap
           in case truediv (real (length overlap)) (real (max 1 (length q_set))) of
                Inl e \<Rightarrow> Inl e
              | Inr overlap_ratio \<Rightarrow> Inr (slice_to overlap_list top_n, overlap_ratio))"

text \<open>\<open>doc_length_norm\<close>: \<open>1.0 / (1.0 + math.log(1 + max(1, len(tokens))))\<close>.\<close>

definition doc_length_norm :: "unicode \<Rightarrow> ustring \<Rightarrow> error + real" where
  "doc_length_norm u doc_text =
     (let tokens = simple_tokenize u doc_text;
          n = max 1 (length tokens)
      in case math_log (1 + real n) of
           Inl e \<Rightarrow> Inl e
         | Inr l \<Rightarrow> truediv 1 (1 + l))"

section \<open>embedder.py\<close>

text \<open>
  The sentence-transformer model is an external capability: the parameter \<open>enc\<close> of the
  functions below gives the raw vector the model produces for one text. \<open>model.encode\<close> of a
  list of texts returns a matrix with one row per text, encoded text by text; for the empty
  list it returns an empty array of one dimension (shape \<open>(0,)\<close>).
\<close>

datatype ndarray = Array1 "real list" | Array2 "real list list"

definition encode :: "(string \<Rightarrow> real list) \<Rightarrow> string list \<Rightarrow> ndarray" where
  "encode enc texts = (if texts = [] then Array1 [] else Array2 (map enc texts))"

text \<open>\<open>np.linalg.norm\<close> of one vector.\<close>

definition linalg_norm :: "real list \<Rightarrow> real" where
  "linalg_norm v = sqrt (sum_list (map (\<lambda>x. x * x) v))"

text \<open>\<open>vec / norm\<close>: every component divided by the same number.\<close>

fun divide_row :: "real list \<Rightarrow> real \<Rightarrow> error + real list" where
  "divide_row [] n = Inr []"
| "divide_row (x # xs) n =
     (case truediv x n of
        Inl e \<Rightarrow> Inl e
      | Inr y \<Rightarrow> (case divide_row xs n of Inl e \<Rightarrow> Inl e | Inr ys \<Rightarrow> Inr (y # ys)))"

text \<open>\<open>vectors / norms\<close> with \<open>keepdims=True\<close>: row \<open>i\<close> divided by \<open>norms[i]\<close>.\<close>

fun divide_rows :: "real list list \<Rightarrow> real list \<Rightarrow> error + real list list" where
  "divide_rows (v # vs) (n # ns) =
     (case divide_row v n of
        Inl e \<Rightarrow> Inl e
      | Inr r \<Rightarrow> (case divide_rows vs ns of Inl e \<Rightarrow> Inl e | Inr rs \<Rightarrow> Inr (r # rs)))"
| "divide_rows _ _ = Inr []"

text \<open>
  \<open>Embedder._normalize\<close>: \<open>norms[norms == 0.0] = 1.0\<close> before the division. The norm along
  \<open>axis=1\<close> needs an array of two dimensions.
\<close>

definition normalize :: "ndarray \<Rightarrow> error + real list list" where
  "normalize vectors =
     (case vectors of
        Array2 rows \<Rightarrow>
          (let norms = map linalg_norm rows;
               norms = map (\<lambda>n. if n = 0 then 1 else n) norms
           in divide_rows rows norms)
      | Array1 v \<Rightarrow> Inl AxisError)"

definition embed_texts :: "(string \<Rightarrow> real list) \<Rightarrow> string list \<Rightarrow> error + real list list" where
  "embed_texts enc texts = (let emb = encode enc texts in normalize emb)"

text \<open>\<open>embed_query\<close>: \<open>encode([query])[0]\<close> is the row of the one text.\<close>

definition embed_query :: "(string \<Rightarrow> real list) \<Rightarrow> string \<Rightarrow> error + real list" where
  "embed_query enc query =
     (let vec = enc query;
          norm = linalg_norm vec
      in if norm = 0 then Inr vec else divide_row vec norm)"

section \<open>cache_manager.py\<close>

record cache_entry =
  e_doc_id :: string
  e_embedding :: "real list"
  e_hash :: string
  e_updated_at :: int

text \<open>
  \<open>CacheManager._data\<close>: a dictionary from document identifier to entry. The entries are
  those \<open>set\<close> writes, with all four keys, so an entry is never an empty (falsy)
  dictionary. \<open>save\<close> rewrites the cache file from \<open>_data\<close> and leaves \<open>_data\<close> as it is;
  the file is read only by \<open>_load\<close>, modelled on its own below.
\<close>

type_synonym cache = "string \<rightharpoonup> cache_entry"

definition cache_get :: "cache \<Rightarrow> string \<Rightarrow> cache_entry option" where
  "cache_get data doc_id = data doc_id"

text \<open>\<open>CacheManager.set\<close>; \<open>now\<close> is the value of \<open>int(time.time())\<close> at the call.\<close>

definition cache_set :: "cache \<Rightarrow> string \<Rightarrow> real list \<Rightarrow> string \<Rightarrow> int \<Rightarrow> cache" where
  "cache_set data doc_id embedding hash_str now =
     data(doc_id \<mapsto> \<lparr>e_doc_id = doc_id, e_embedding = embedding, e_hash = hash_str, e_updated_at = now\<rparr>)"

record doc_meta =
  m_doc_id :: string
  m_path :: string
  m_hash :: string
  m_length :: int

text \<open>
  \<open>CacheManager.bulk_get_changed\<close>. The result dictionary maps a document identifier to an
  entry or to Python's \<open>None\<close>: \<open>Some None\<close> is a key whose value is \<open>None\<close>.
\<close>

fun bulk_loop :: "cache \<Rightarrow> doc_meta list \<Rightarrow> (string \<rightharpoonup> cache_entry option) \<Rightarrow> (string \<rightharpoonup> cache_entry option)" where
  "bulk_loop data [] result = result"
| "bulk_loop data (meta # metas) result =
     (let doc_id = m_doc_id meta;
          cached = cache_get data doc_id
      in bulk_loop data metas
           (case cached of
              Some c \<Rightarrow> if e_hash c = m_hash meta then result(doc_id \<mapsto> Some c) else result(doc_id \<mapsto> None)
            | None \<Rightarrow> result(doc_id \<mapsto> None)))"

definition bulk_get_changed :: "cache \<Rightarrow> doc_meta list \<Rightarrow> (string \<rightharpoonup> cache_entry option)" where
  "bulk_get_changed data metas = bulk_loop data metas Map.empty"

text \<open>
  \<open>CacheManager._load\<close>. The cache file is a sequence of bytes, or missing. It is opened with
  \<open>encoding="utf-8"\<close>, so \<open>json.load\<close> first decodes the whole file: bytes that are not
  well-formed UTF-8 raise \<open>UnicodeDecodeError\<close>. \<open>utf8_valid\<close> is the strict well-formedness
  test of that codec (no overlong forms, no surrogates, nothing above U+10FFFF).
\<close>

definition continuation :: "nat \<Rightarrow> bool" where
  "continuation b \<longleftrightarrow> 128 \<le> b \<and> b \<le> 191"

fun utf8_valid :: "nat list \<Rightarrow> bool" where
  "utf8_valid [] = True"
| "utf8_valid (b0 # bs) =
     (if b0 < 128 then utf8_valid bs
      else if 194 \<le> b0 \<and> b0 \<le> 223 then
        (case bs of
           b1 # r \<Rightarrow> continuation b1 \<and> utf8_valid r
         | _ \<Rightarrow> False)
      else if 224 \<le> b0 \<and> b0 \<le> 239 then
        (case bs of
           b1 # b2 # r \<Rightarrow>
             continuation b1 \<and> continuation b2 \<and> (b0 \<noteq> 224 \<or> 160 \<le> b1) \<and> (b0 \<noteq> 237 \<or> b1 \<le> 159)
             \<and> utf8_valid r
         | _ \<Rightarrow> False)
      else if 240 \<le> b0 \<and> b0 \<le> 244 then
        (case bs of
           b1 # b2 # b3 # r \<Rightarrow>
             continuation b1 \<and> continuation b2 \<and> continuation b3
             \<and> (b0 \<noteq> 240 \<or> 144 \<le> b1) \<and> (b0 \<noteq> 244 \<or> b1 \<le> 143)
             \<and> utf8_valid r
         | _ \<Rightarrow> False)
      else False)"

text \<open>
  The JSON parser is the parameter \<open>json_loads\<close>: it gives the exception \<open>json.load\<close> raises
  on the decoded text (\<open>JSONDecodeError\<close> where the text is not JSON, another one such as
  \<open>RecursionError\<close> where it is nested too deeply), or the dictionary read (a file whose
  JSON value is not a dictionary of entries is outside the model). \<open>file\<close> is \<open>None\<close> when
  the path does not exist. Only \<open>JSONDecodeError\<close> is caught.
\<close>

definition load :: "(string \<Rightarrow> error + cache) \<Rightarrow> string option \<Rightarrow> error + cache" where
  "load json_loads file =
     (case file of
        Some bytes \<Rightarrow>
          if utf8_valid (map of_char bytes) then
            (case json_loads bytes of
               Inr d \<Rightarrow> Inr d
             | Inl e \<Rightarrow> if e = JSONDecodeError then Inr Map.empty else Inl e)
          else Inl UnicodeDecodeError
      | None \<Rightarrow> Inr Map.empty)"

section \<open>search_engine.py\<close>

text \<open>
  faiss is an external library. An \<open>IndexFlatIP\<close> is its dimension and the vectors added to
  it, in the order they were added; \<open>ntotal\<close> is their number.
\<close>

record faiss_index =
  fi_d :: nat
  fi_vectors :: "real list list"

text \<open>
  The state of a \<open>SearchEngine\<close> and of the files it works on. \<open>metadata\<close> is the dictionary
  read from \<open>data/metadata.json\<close>, as its items in file order. The id-map has the position as
  key: \<open>json.dump\<close> writes the integer key \<open>i\<close> as the string \<open>str(i)\<close> and \<open>search\<close> looks
  \<open>str(idx)\<close> up, so the model keeps the integer. \<open>embed_calls\<close> is a ghost field that logs
  every call of \<open>embed_texts\<close>: the positions and texts handed to the provider.
\<close>

record engine =
  metadata :: "(string \<times> doc_meta) list"
  cache :: cache
  index :: "faiss_index option"
  id_map :: "(int \<rightharpoonup> string) option"
  doc_files :: "string \<rightharpoonup> string"
  index_file :: "faiss_index option"
  idmap_file :: "(int \<rightharpoonup> string) option"
  embed_calls :: "(nat \<times> string) list list"

text \<open>The loop that reads every document's text.\<close>

fun load_texts :: "(string \<rightharpoonup> string) \<Rightarrow> doc_meta list \<Rightarrow> error + string list" where
  "load_texts files [] = Inr []"
| "load_texts files (meta # rest) =
     (case files (m_path meta) of
        None \<Rightarrow> Inl (FileNotFoundError (m_path meta))
      | Some text \<Rightarrow>
          (case load_texts files rest of
             Inl e \<Rightarrow> Inl e
           | Inr texts \<Rightarrow> Inr (text # texts)))"

text \<open>
  The loop over \<open>enumerate(all_docs)\<close>; it returns \<open>(embeddings, to_compute, compute_indices)\<close>.
  The decision is \<open>self.cache.get(meta["doc_id"])\<close> alone: the hash of the entry is not read.
\<close>

fun check_cache :: "cache \<Rightarrow> (nat \<times> doc_meta \<times> string) list
    \<Rightarrow> real list option list \<times> string list \<times> nat list" where
  "check_cache data [] = ([], [], [])"
| "check_cache data ((i, meta, text) # rest) =
     (let (embeddings, to_compute, compute_indices) = check_cache data rest
      in case cache_get data (m_doc_id meta) of
           Some cached \<Rightarrow> (Some (e_embedding cached) # embeddings, to_compute, compute_indices)
         | None \<Rightarrow> (None # embeddings, text # to_compute, i # compute_indices))"

text \<open>
  The loop over \<open>zip(compute_indices, new_embs)\<close>. Every \<open>idx\<close> is a position of
  \<open>enumerate(all_docs)\<close>, so \<open>all_docs[idx]\<close> and \<open>embeddings[idx]\<close> are in range.
  \<open>clk idx\<close> is the clock read when the entry for position \<open>idx\<close> is written.
\<close>

fun write_back :: "(nat \<Rightarrow> int) \<Rightarrow> doc_meta list \<Rightarrow> (nat \<times> real list) list
    \<Rightarrow> cache \<times> real list option list \<Rightarrow> cache \<times> real list option list" where
  "write_back clk all_docs [] st = st"
| "write_back clk all_docs ((idx, emb) # rest) (data, embeddings) =
     (let doc_meta = all_docs ! idx
      in write_back clk all_docs rest
           (cache_set data (m_doc_id doc_meta) emb (m_hash doc_meta) (clk idx),
            embeddings[idx := Some emb]))"

text \<open>
  \<open>np.vstack\<close>: \<open>ValueError\<close> on an empty list and on rows of different lengths. A \<open>None\<close>
  left in the list cannot be stacked into a float matrix either.
\<close>

definition vstack :: "real list option list \<Rightarrow> error + real list list" where
  "vstack embeddings =
     (if embeddings = [] then Inl ValueError
      else if list_ex (\<lambda>e. e = None) embeddings then Inl ValueError
      else
        let rows = map the embeddings
        in if list_all (\<lambda>r. length r = length (hd rows)) rows then Inr rows
           else Inl ValueError)"

text \<open>
  \<open>SearchEngine.build_index\<close>. It writes the index file and the id-map file and changes the
  cache; \<open>self.index\<close> and \<open>self.id_map\<close> stay as they were.
\<close>

definition build_index :: "(string \<Rightarrow> real list) \<Rightarrow> (nat \<Rightarrow> int) \<Rightarrow> engine \<Rightarrow> error + engine" where
  "build_index enc clk eng =
     (let all_docs = map snd (metadata eng);
          doc_ids = map m_doc_id all_docs
      in case load_texts (doc_files eng) all_docs of
           Inl e \<Rightarrow> Inl e
         | Inr texts \<Rightarrow>
             let (embeddings, to_compute, compute_indices) =
                   check_cache (cache eng) (zip [0..<length all_docs] (zip all_docs texts))
             in case (if to_compute \<noteq> [] then
                        (case embed_texts enc to_compute of
                           Inl e \<Rightarrow> Inl e
                         | Inr new_embs \<Rightarrow>
                             Inr (write_back clk all_docs (zip compute_indices new_embs)
                                    (cache eng, embeddings),
                                  [zip compute_indices to_compute]))
                      else Inr ((cache eng, embeddings), [])) of
                  Inl e \<Rightarrow> Inl e
                | Inr ((data, embeddings), calls) \<Rightarrow>
                    (case vstack embeddings of
                       Inl e \<Rightarrow> Inl e
                     | Inr matrix \<Rightarrow>
                         let dim = length (hd matrix);
                             idx = \<lparr>fi_d = dim, fi_vectors = matrix\<rparr>;
                             ids = map_of (zip (map int [0..<length doc_ids]) doc_ids)
                         in Inr (eng\<lparr>cache := data,
                                     index_file := Some idx,
                                     idmap_file := Some ids,
                                     embed_calls := embed_calls eng @ calls\<rparr>)))"

text \<open>\<open>SearchEngine.load_index\<close>.\<close>

definition load_index :: "engine \<Rightarrow> error + engine" where
  "load_index eng =
     (case index_file eng of
        None \<Rightarrow> Inl IndexMissing
      | Some idx \<Rightarrow>
          (case idmap_file eng of
             None \<Rightarrow> Inl (FileNotFoundError ''vector_store/id_map.json'')
           | Some ids \<Rightarrow> Inr (eng\<lparr>index := Some idx, id_map := Some ids\<rparr>)))"

text \<open>
  \<open>index.search(qvec, top_k)\<close> for one query vector, from the documented behaviour of
  \<open>IndexFlatIP\<close>: the wrapper asserts that the query has the dimension of the index and that
  \<open>k > 0\<close>; the result has exactly \<open>k\<close> entries, the stored vectors of largest inner product
  first, and where the index holds fewer than \<open>k\<close> vectors the remaining entries have the
  label \<open>-1\<close> and the lowest float as score. faiss does not fix the order among equal
  scores; the model puts the lower position first, and no statement depends on that choice.
\<close>

definition inner_product :: "real list \<Rightarrow> real list \<Rightarrow> real" where
  "inner_product q v = sum_list (map2 (*) q v)"

definition flt_lowest :: real where
  "flt_lowest = - 340282346638528859811704183484516925440"

definition faiss_search :: "faiss_index \<Rightarrow> real list \<Rightarrow> int \<Rightarrow> error + (real \<times> int) list" where
  "faiss_search idx q k =
     (if length q \<noteq> fi_d idx then Inl AssertionError
      else if k \<le> 0 then Inl AssertionError
      else
        let scored = zip (map (inner_product q) (fi_vectors idx))
                         (map int [0..<length (fi_vectors idx)]);
            best = take (nat k) (sorted_reverse fst scored)
        in Inr (best @ replicate (nat k - length best) (flt_lowest, - 1)))"

text \<open>The loop over \<open>zip(scores[0], indices[0])\<close>: the first missing key raises.\<close>

fun resolve :: "(int \<rightharpoonup> string) \<Rightarrow> (string \<times> doc_meta) list \<Rightarrow> (real \<times> int) list
    \<Rightarrow> error + candidate list" where
  "resolve ids md [] = Inr []"
| "resolve ids md ((score, idx) # rest) =
     (case ids idx of
        None \<Rightarrow> Inl (IdMapKeyError idx)
      | Some doc_id \<Rightarrow>
          (case map_of md doc_id of
             None \<Rightarrow> Inl (MetadataKeyError doc_id)
           | Some meta \<Rightarrow>
               (case resolve ids md rest of
                  Inl e \<Rightarrow> Inl e
                | Inr results \<Rightarrow>
                    Inr (\<lparr>c_doc_id = doc_id, c_score = score, c_path = m_path meta\<rparr> # results))))"

text \<open>\<open>SearchEngine.search\<close>.\<close>

definition search :: "(string \<Rightarrow> real list) \<Rightarrow> engine \<Rightarrow> string \<Rightarrow> int \<Rightarrow> error + candidate list" where
  "search enc eng query top_k =
     (case (index eng, id_map eng) of
        (Some idx, Some ids) \<Rightarrow>
          (case embed_query enc query of
             Inl e \<Rightarrow> Inl e
           | Inr qvec \<Rightarrow>
               (case faiss_search idx qvec top_k of
                  Inl e \<Rightarrow> Inl e
                | Inr hits \<Rightarrow> resolve ids (metadata eng) hits))
      | _ \<Rightarrow> Inl IndexNotReady)"

section \<open>Notions used in the statements\<close>

text \<open>What \<open>_normalize\<close> makes of one row: the row divided by its norm, or by \<open>1\<close> when the norm is zero.\<close>

definition unit_row :: "real list \<Rightarrow> real list" where
  "unit_row v = map (\<lambda>x. x / (if linalg_norm v = 0 then 1 else linalg_norm v)) v"

text \<open>A document misses the cache when \<open>get\<close> finds no entry under its identifier.\<close>

definition miss :: "cache \<Rightarrow> doc_meta \<Rightarrow> bool" where
  "miss data m \<longleftrightarrow> data (m_doc_id m) = None"

text \<open>The positions, in metadata order, of the documents that miss the cache.\<close>

definition missing :: "cache \<Rightarrow> doc_meta list \<Rightarrow> nat list" where
  "missing data ms = filter (\<lambda>i. miss data (ms ! i)) [0..<length ms]"

text \<open>
  The vector \<open>build_index\<close> places for a document, by the rule of its loop: the embedding of
  the cache entry found under the identifier, whatever the hash of the entry, else the fresh
  embedding of the text. (The embedding of a document with text \<open>t\<close> is \<open>unit_row (enc t)\<close>;
  for a stale entry the two differ.)
\<close>

definition doc_vector :: "(string \<Rightarrow> real list) \<Rightarrow> cache \<Rightarrow> doc_meta \<Rightarrow> string \<Rightarrow> real list" where
  "doc_vector enc data m t =
     (case data (m_doc_id m) of Some c \<Rightarrow> e_embedding c | None \<Rightarrow> unit_row (enc t))"

text \<open>The cache a build leaves: the entries written back for the missing positions.\<close>

definition built_cache :: "(string \<Rightarrow> real list) \<Rightarrow> (nat \<Rightarrow> int) \<Rightarrow> cache \<Rightarrow> doc_meta list \<Rightarrow> string list \<Rightarrow> cache" where
  "built_cache enc clk data ms ts =
     fst (write_back clk ms (map (\<lambda>i. (i, unit_row (enc (ts ! i)))) (missing data ms))
           (data, map (\<lambda>i. map_option e_embedding (data (m_doc_id (ms ! i)))) [0..<length ms]))"

text \<open>The provider calls of one build: none, or one batch holding the missing positions.\<close>

definition provider_calls :: "cache \<Rightarrow> doc_meta list \<Rightarrow> string list \<Rightarrow> (nat \<times> string) list list" where
  "provider_calls data ms ts =
     (if missing data ms = [] then [] else [map (\<lambda>i. (i, ts ! i)) (missing data ms)])"

text \<open>The decision of \<open>bulk_get_changed\<close> for one meta: the entry if its hash is the meta's, else \<open>None\<close>.\<close>

definition decide :: "cache \<Rightarrow> doc_meta \<Rightarrow> cache_entry option" where
  "decide data meta = (case data (m_doc_id meta) of
       Some c \<Rightarrow> if e_hash c = m_hash meta then Some c else None | None \<Rightarrow> None)"

text \<open>A hit of the index search resolves when its position has an id-map entry that is a key of the metadata.\<close>

definition resolvable :: "(int \<rightharpoonup> string) \<Rightarrow> (string \<times> doc_meta) list \<Rightarrow> real \<times> int \<Rightarrow> bool" where
  "resolvable ids md hit \<longleftrightarrow> (\<exists>d m. ids (snd hit) = Some d \<and> map_of md d = Some m)"

text \<open>
  The state a build and a load leave: every position of the index has an id-map entry that
  is a key of the metadata, and the id-map has no entry for \<open>-1\<close>.
\<close>

definition aligned :: "faiss_index \<Rightarrow> (int \<rightharpoonup> string) \<Rightarrow> (string \<times> doc_meta) list \<Rightarrow> bool" where
  "aligned idx ids md \<longleftrightarrow>
     (\<forall>i<length (fi_vectors idx). \<exists>d m. ids (int i) = Some d \<and> map_of md d = Some m)
     \<and> ids (- 1) = None"

section \<open>Example states\<close>

text \<open>
  The tables of Python restricted to ASCII: \<open>\w\<close> matches digits, letters and the underscore,
  and \<open>str.lower\<close> maps \<open>A\<close>..\<open>Z\<close> to \<open>a\<close>..\<open>z\<close>. They stand for Python's tables in the
  examples, all of whose texts are ASCII.
\<close>

definition ascii :: unicode where
  "ascii =
     \<lparr>is_word = (\<lambda>c. 48 \<le> c \<and> c \<le> 57 \<or> 65 \<le> c \<and> c \<le> 90 \<or> c = 95 \<or> 97 \<le> c \<and> c \<le> 122),
      str_lower = map (\<lambda>c. if 65 \<le> c \<and> c \<le> 90 then c + 32 else c)\<rparr>"

text \<open>
  Two documents, the first with a cache entry whose hash is the current one, the second
  without an entry; and that state after a build with an encoder that maps every text to
  \<open>[2, 0]\<close> and a clock that reads \<open>7\<close>.
\<close>

definition demo_engine :: engine where
  "demo_engine =
     \<lparr>metadata = [(''d1'', \<lparr>m_doc_id = ''d1'', m_path = ''p1'', m_hash = ''h1'', m_length = 1\<rparr>),
                  (''d2'', \<lparr>m_doc_id = ''d2'', m_path = ''p2'', m_hash = ''h2'', m_length = 1\<rparr>)],
      cache = [''d1'' \<mapsto> \<lparr>e_doc_id = ''d1'', e_embedding = [0, 1], e_hash = ''h1'', e_updated_at = 0\<rparr>],
      index = None, id_map = None,
      doc_files = [''p1'' \<mapsto> ''x'', ''p2'' \<mapsto> ''y''],
      index_file = None, idmap_file = None, embed_calls = []\<rparr>"

definition demo_built :: engine where
  "demo_built =
     demo_engine\<lparr>cache := (cache demo_engine)(''d2'' \<mapsto>
                     \<lparr>e_doc_id = ''d2'', e_embedding = [1, 0], e_hash = ''h2'', e_updated_at = 7\<rparr>),
                 index_file := Some \<lparr>fi_d = 2, fi_vectors = [[0, 1], [1, 0]]\<rparr>,
                 idmap_file := Some (map_of [(0, ''d1''), (1, ''d2'')]),
                 embed_calls := [[(1, ''y'')]]\<rparr>"

text \<open>One document whose text was edited after it was cached: the entry has the old hash.\<close>

definition stale_engine :: engine where
  "stale_engine =
     \<lparr>metadata = [(''d1'', \<lparr>m_doc_id = ''d1'', m_path = ''p1'', m_hash = ''new'', m_length = 1\<rparr>)],
      cache = [''d1'' \<mapsto> \<lparr>e_doc_id = ''d1'', e_embedding = [0, 1], e_hash = ''old'', e_updated_at = 0\<rparr>],
      index = None, id_map = None,
      doc_files = [''p1'' \<mapsto> ''edited text''],
      index_file = None, idmap_file = None, embed_calls = []\<rparr>"

text \<open>
  Two documents, the first without a cache entry, the second edited after it was cached.
\<close>

definition stale_pair_engine :: engine where
  "stale_pair_engine =
     \<lparr>metadata = [(''d1'', \<lparr>m_doc_id = ''d1'', m_path = ''p1'', m_hash = ''h1'', m_length = 1\<rparr>),
                  (''d2'', \<lparr>m_doc_id = ''d2'', m_path = ''p2'', m_hash = ''new'', m_length = 11\<rparr>)],
      cache = [''d2'' \<mapsto> \<lparr>e_doc_id = ''d2'', e_embedding = [0, 1], e_hash = ''old'', e_updated_at = 0\<rparr>],
      index = None, id_map = None,
      doc_files = [''p1'' \<mapsto> ''x'', ''p2'' \<mapsto> ''edited text''],
      index_file = None, idmap_file = None, embed_calls = []\<rparr>"

text \<open>The built example state after \<open>load_index\<close>.\<close>

definition demo_loaded :: engine where
  "demo_loaded = demo_built\<lparr>index := index_file demo_built, id_map := idmap_file demo_built\<rparr>"

section \<open>Slices and the reverse sort\<close>

lemma slice_to_prefix: "prefix (slice_to xs k) xs"
  by (simp add: slice_to_def take_is_prefix)

lemma mset_prefix_subset: "prefix ys xs \<Longrightarrow> mset ys \<subseteq># mset xs"
  by (auto simp: prefix_def)

lemma sorted_wrt_prefix: "prefix ys xs \<Longrightarrow> sorted_wrt P xs \<Longrightarrow> sorted_wrt P ys"
  by (auto simp: prefix_def sorted_wrt_append)

lemma filter_sorted_reverse:
  "filter (\<lambda>y. f y = k) (sorted_reverse f xs) = filter (\<lambda>y. f y = k) xs"
  by (simp add: sorted_reverse_def rev_filter [symmetric] sort_key_stable)

lemma mset_sorted_reverse: "mset (sorted_reverse f xs) = mset xs"
  by (simp add: sorted_reverse_def)

lemma sorted_reverse_desc: "sorted_wrt (\<lambda>a b. f a \<ge> f b) (sorted_reverse f xs)"
proof -
  have "sorted (map f (sort_key f (rev xs)))" by simp
  then have "sorted_wrt (\<lambda>a b. f a \<le> f b) (sort_key f (rev xs))"
    by (simp add: sorted_map)
  then show ?thesis
    unfolding sorted_reverse_def by (simp add: sorted_wrt_rev)
qed

section \<open>The ranker\<close>

text \<open>
  Claim C6: ranking is deterministic. For every candidate list and every \<open>top_k\<close>, the result
  of \<open>rerank\<close> is drawn from the input candidates (as a multiset) and its scores are
  non-increasing from first to last, and for every \<open>top_k\<close> from zero on (the pipeline passes
  \<open>top_k \<ge> 1\<close>) it has at most \<open>top_k\<close> elements. \<open>rerank\<close> reads nothing but its two
  arguments, so the same arguments give the same sequence. (For a negative \<open>top_k\<close>, which no
  caller passes, the slice \<open>ranked[:top_k]\<close> has \<open>len(results) + top_k\<close> elements, none if
  that is negative.)
\<close>

theorem rerank_sorted_bounded:
  "mset (rerank results top_k) \<subseteq># mset results
   \<and> sorted_wrt (\<lambda>a b. c_score a \<ge> c_score b) (rerank results top_k)
   \<and> (0 \<le> top_k \<longrightarrow> int (length (rerank results top_k)) \<le> top_k)
   \<and> (top_k < 0 \<longrightarrow> length (rerank results top_k) = nat (int (length results) + top_k))"
proof -
  let ?ranked = "sorted_reverse c_score results"
  have p: "prefix (rerank results top_k) ?ranked"
    by (simp add: rerank_def slice_to_prefix)
  have len: "length ?ranked = length results"
    by (simp add: sorted_reverse_def)
  have "mset (rerank results top_k) \<subseteq># mset results"
    using mset_prefix_subset [OF p] by (simp add: mset_sorted_reverse)
  moreover have "sorted_wrt (\<lambda>a b. c_score a \<ge> c_score b) (rerank results top_k)"
    using sorted_wrt_prefix [OF p sorted_reverse_desc] .
  moreover have "0 \<le> top_k \<longrightarrow> int (length (rerank results top_k)) \<le> top_k"
    by (auto simp: rerank_def slice_to_def min_def)
  moreover have "top_k < 0 \<longrightarrow> length (rerank results top_k) = nat (int (length results) + top_k)"
    by (auto simp: rerank_def slice_to_def len)
  ultimately show ?thesis by simp
qed

theorem rerank_sorted_bounded_witness:
  "rerank [\<lparr>c_doc_id = ''a'', c_score = 1, c_path = ''pa''\<rparr>,
           \<lparr>c_doc_id = ''b'', c_score = 3, c_path = ''pb''\<rparr>,
           \<lparr>c_doc_id = ''c'', c_score = 2, c_path = ''pc''\<rparr>] 2
     = [\<lparr>c_doc_id = ''b'', c_score = 3, c_path = ''pb''\<rparr>,
        \<lparr>c_doc_id = ''c'', c_score = 2, c_path = ''pc''\<rparr>]
   \<and> (0::int) \<le> 2
   \<and> int (length (rerank [\<lparr>c_doc_id = ''a'', c_score = 1, c_path = ''pa''\<rparr>,
           \<lparr>c_doc_id = ''b'', c_score = 3, c_path = ''pb''\<rparr>,
           \<lparr>c_doc_id = ''c'', c_score = 2, c_path = ''pc''\<rparr>] 2)) \<le> 2
   \<and> (- 1 :: int) < 0
   \<and> length (rerank [\<lparr>c_doc_id = ''a'', c_score = 1, c_path = ''pa''\<rparr>,
           \<lparr>c_doc_id = ''b'', c_score = 3, c_path = ''pb''\<rparr>,
           \<lparr>c_doc_id = ''c'', c_score = 2, c_path = ''pc''\<rparr>] (- 1)) = 2"
  using rerank_sorted_bounded [of "[\<lparr>c_doc_id = ''a'', c_score = 1, c_path = ''pa''\<rparr>,
           \<lparr>c_doc_id = ''b'', c_score = 3, c_path = ''pb''\<rparr>,
           \<lparr>c_doc_id = ''c'', c_score = 2, c_path = ''pc''\<rparr>]" 2]
        rerank_sorted_bounded [of "[\<lparr>c_doc_id = ''a'', c_score = 1, c_path = ''pa''\<rparr>,
           \<lparr>c_doc_id = ''b'', c_score = 3, c_path = ''pb''\<rparr>,
           \<lparr>c_doc_id = ''c'', c_score = 2, c_path = ''pc''\<rparr>]" "- 1"]
  by (simp add: rerank_def slice_to_def sorted_reverse_def)

text \<open>
  Claim C9: the sort of \<open>rerank\<close> is stable. For every score \<open>s\<close>, the returned candidates of
  score \<open>s\<close> are an initial part of the input candidates of score \<open>s\<close>, in the input's order:
  candidates of equal score keep their relative order, and the truncation drops the later ones.
\<close>

theorem rerank_stable:
  "prefix (filter (\<lambda>c. c_score c = s) (rerank results top_k))
          (filter (\<lambda>c. c_score c = s) results)"
proof -
  have "prefix (rerank results top_k) (sorted_reverse c_score results)"
    by (simp add: rerank_def slice_to_prefix)
  then have "prefix (filter (\<lambda>c. c_score c = s) (rerank results top_k))
                    (filter (\<lambda>c. c_score c = s) (sorted_reverse c_score results))"
    by (rule filter_mono_prefix)
  then show ?thesis by (simp add: filter_sorted_reverse)
qed

theorem rerank_stable_witness:
  "rerank [\<lparr>c_doc_id = ''a'', c_score = 1, c_path = ''pa''\<rparr>,
           \<lparr>c_doc_id = ''b'', c_score = 3, c_path = ''pb''\<rparr>,
           \<lparr>c_doc_id = ''c'', c_score = 1, c_path = ''pc''\<rparr>] 5
     = [\<lparr>c_doc_id = ''b'', c_score = 3, c_path = ''pb''\<rparr>,
        \<lparr>c_doc_id = ''a'', c_score = 1, c_path = ''pa''\<rparr>,
        \<lparr>c_doc_id = ''c'', c_score = 1, c_path = ''pc''\<rparr>]
   \<and> prefix (filter (\<lambda>c. c_score c = 1)
               (rerank [\<lparr>c_doc_id = ''a'', c_score = 1, c_path = ''pa''\<rparr>,
                        \<lparr>c_doc_id = ''b'', c_score = 3, c_path = ''pb''\<rparr>,
                        \<lparr>c_doc_id = ''c'', c_score = 1, c_path = ''pc''\<rparr>] 5))
             [\<lparr>c_doc_id = ''a'', c_score = 1, c_path = ''pa''\<rparr>,
              \<lparr>c_doc_id = ''c'', c_score = 1, c_path = ''pc''\<rparr>]"
  using rerank_stable [of 1 "[\<lparr>c_doc_id = ''a'', c_score = 1, c_path = ''pa''\<rparr>,
                               \<lparr>c_doc_id = ''b'', c_score = 3, c_path = ''pb''\<rparr>,
                               \<lparr>c_doc_id = ''c'', c_score = 1, c_path = ''pc''\<rparr>]" 5]
  by (simp add: rerank_def slice_to_def sorted_reverse_def)

section \<open>The explainer\<close>

lemma insort_key_pair: "insort_key (\<lambda>x. (c, x)) a ys = insort a ys"
  by (induction ys) (auto simp: less_eq_prod_def)

lemma sort_key_pair: "sort_key (\<lambda>x. (c, x)) xs = sort xs"
  by (induction xs) (simp_all add: insort_key_pair)

lemma sort_key_cong_set:
  "(\<And>x. x \<in> set xs \<Longrightarrow> f x = g x) \<Longrightarrow> sort_key f xs = sort_key g xs"
proof (induction xs)
  case Nil
  show ?case by simp
next
  case (Cons a xs)
  have ins: "\<And>ys. (\<forall>y\<in>set ys. f y = g y) \<Longrightarrow> f a = g a \<Longrightarrow> insort_key f a ys = insort_key g a ys"
    subgoal for ys by (induction ys) auto
    done
  show ?case using Cons by (simp add: ins)
qed

text \<open>On the overlap every key is \<open>(-1, x)\<close>, so the sort is the alphabetical one.\<close>

lemma overlap_list_sorted:
  assumes "distinct qs"
  shows "sort_key (\<lambda>x. (- (if x \<in> D then 1 else 0 :: int), x)) (filter (\<lambda>x. x \<in> D) qs)
         = sorted_list_of_set (set qs \<inter> D)"
proof -
  let ?ov = "filter (\<lambda>x. x \<in> D) qs"
  have "sort_key (\<lambda>x. (- (if x \<in> D then 1 else 0 :: int), x)) ?ov = sort_key (\<lambda>x. (- 1 :: int, x)) ?ov"
    by (rule sort_key_cong_set) simp
  also have "\<dots> = sort ?ov" by (rule sort_key_pair)
  also have "\<dots> = sort (remdups ?ov)" using assms by (simp add: distinct_remdups_id)
  also have "\<dots> = sorted_list_of_set (set ?ov)" by (simp only: sorted_list_of_set_sort_remdups)
  finally have "sort_key (\<lambda>x. (- (if x \<in> D then 1 else 0 :: int), x)) ?ov = sorted_list_of_set (set ?ov)" .
  moreover have "set ?ov = set qs \<inter> D" by auto
  ultimately show ?thesis by (simp only:)
qed

lemma overlap_card:
  "length (filter (\<lambda>x. x \<in> D) (remdups qs)) = card (set qs \<inter> D)"
proof -
  have d: "distinct (filter (\<lambda>x. x \<in> D) (remdups qs))" by simp
  have "card (set (filter (\<lambda>x. x \<in> D) (remdups qs))) = length (filter (\<lambda>x. x \<in> D) (remdups qs))"
    by (rule distinct_card [OF d])
  moreover have "set (filter (\<lambda>x. x \<in> D) (remdups qs)) = set qs \<inter> D" by auto
  ultimately show ?thesis by (simp only:)
qed

lemma set_extract_keywords:
  "set (extract_keywords u t True) = {w \<in> set (simple_tokenize u t). w \<notin> set STOPWORDS}"
  by (simp add: extract_keywords_def)

lemma keyword_overlap_keywords:
  "\<exists>kws r. keyword_overlap u query doc_text 10 = Inr (kws, r)
     \<and> kws = take 10 (sorted_list_of_set (set (extract_keywords u query True) \<inter> set (extract_keywords u doc_text True)))
     \<and> sorted kws \<and> distinct kws \<and> length kws \<le> 10
     \<and> (if set (extract_keywords u query True) = {} then kws = [] \<and> r = 0
         else r = real (card (set (extract_keywords u query True) \<inter> set (extract_keywords u doc_text True)))
                  / real (card (set (extract_keywords u query True))))
     \<and> 0 \<le> r \<and> r \<le> 1"
proof (cases "extract_keywords u query True = []")
  case True
  then show ?thesis by (simp add: keyword_overlap_def)
next
  case False
  let ?q = "extract_keywords u query True" and ?d = "extract_keywords u doc_text True"
  let ?Q = "set ?q" and ?D = "set ?d"
  let ?kws = "take 10 (sorted_list_of_set (?Q \<inter> ?D))"
  let ?r = "real (card (?Q \<inter> ?D)) / real (card ?Q)"
  have cq: "0 < card ?Q" using False by (simp add: card_gt_0_iff)
  have lenq: "length (remdups ?q) = card ?Q" by (simp add: length_remdups_card_conv)
  have le: "card (?Q \<inter> ?D) \<le> card ?Q" by (simp add: card_mono)
  have ko: "keyword_overlap u query doc_text 10 = Inr (?kws, ?r)"
    using False cq
    by (simp add: keyword_overlap_def Let_def truediv_def slice_to_def lenq
        overlap_card overlap_list_sorted [where D = "?D" and qs = "remdups ?q", simplified])
  have "sorted (sorted_list_of_set (?Q \<inter> ?D))" "distinct (sorted_list_of_set (?Q \<inter> ?D))" by simp_all
  then have s: "sorted ?kws" "distinct ?kws" by (simp_all add: sorted_wrt_take)
  have r: "0 \<le> ?r" "?r \<le> 1" using cq le by (simp_all add: divide_le_eq_1)
  show ?thesis using ko s r False by simp
qed

lemma keywords_examples:
  "extract_keywords ascii (codepoints ''the and of'') True = []"
  "extract_keywords ascii (codepoints ''the'') True = []"
  "extract_keywords ascii (codepoints ''The quantum physics of light'') True
     = [codepoints ''quantum'', codepoints ''physics'', codepoints ''light'']"
  "extract_keywords ascii (codepoints ''Quantum theory and the physics of stars'') True
     = [codepoints ''quantum'', codepoints ''theory'', codepoints ''physics'', codepoints ''stars'']"
  by code_simp+

text \<open>
  Claim C7: for every query and document text, \<open>keyword_overlap\<close> (with the default
  \<open>top_n = 10\<close>) raises nothing and returns the intersection of the query tokens that are no
  stopword and the document tokens that are no stopword, in alphabetical order and cut to at
  most ten entries, together with the ratio of the size of the intersection to the number of
  distinct query keywords, which lies in \<open>[0, 1]\<close>; when the query has no token that is not a
  stopword it returns \<open>([], 0.0)\<close>. The tokens are those of \<open>simple_tokenize\<close> and the
  stopwords those of \<open>STOPWORDS\<close>, for any Unicode tables.
\<close>

theorem keyword_overlap_spec:
  "\<exists>kws r. keyword_overlap u query doc_text 10 = Inr (kws, r)
     \<and> kws = take 10 (sorted_list_of_set
                ({w \<in> set (simple_tokenize u query). w \<notin> set STOPWORDS}
                 \<inter> {w \<in> set (simple_tokenize u doc_text). w \<notin> set STOPWORDS}))
     \<and> sorted kws \<and> distinct kws \<and> length kws \<le> 10
     \<and> (if {w \<in> set (simple_tokenize u query). w \<notin> set STOPWORDS} = {} then kws = [] \<and> r = 0
         else r = real (card ({w \<in> set (simple_tokenize u query). w \<notin> set STOPWORDS}
                               \<inter> {w \<in> set (simple_tokenize u doc_text). w \<notin> set STOPWORDS}))
                  / real (card {w \<in> set (simple_tokenize u query). w \<notin> set STOPWORDS}))
     \<and> 0 \<le> r \<and> r \<le> 1"
  using keyword_overlap_keywords [of u query doc_text]
  unfolding set_extract_keywords .

theorem keyword_overlap_spec_witness:
  "keyword_overlap ascii (codepoints ''the and of'') (codepoints ''the'') 10 = Inr ([], 0)
   \<and> keyword_overlap ascii (codepoints ''The quantum physics of light'')
        (codepoints ''Quantum theory and the physics of stars'') 10
      = Inr ([codepoints ''physics'', codepoints ''quantum''], 2 / 3)"
proof -
  let ?q = "[codepoints ''quantum'', codepoints ''physics'', codepoints ''light'']"
  let ?d = "[codepoints ''quantum'', codepoints ''theory'', codepoints ''physics'', codepoints ''stars'']"
  have i: "set ?q \<inter> set ?d = {codepoints ''physics'', codepoints ''quantum''}"
    by (auto simp: codepoints_def)
  have c: "card {codepoints ''physics'', codepoints ''quantum''} = 2" "card (set ?q) = 3"
    by (simp_all add: codepoints_def)
  have s: "sorted_list_of_set {codepoints ''physics'', codepoints ''quantum''}
           = [codepoints ''physics'', codepoints ''quantum'']"
    by (simp add: codepoints_def)
  have e: "set ?q \<noteq> {}" by simp
  have 1: "keyword_overlap ascii (codepoints ''the and of'') (codepoints ''the'') 10 = Inr ([], 0)"
    using keyword_overlap_spec [of ascii "codepoints ''the and of''" "codepoints ''the''"]
    unfolding set_extract_keywords [symmetric] keywords_examples by auto
  have 2: "keyword_overlap ascii (codepoints ''The quantum physics of light'')
        (codepoints ''Quantum theory and the physics of stars'') 10
      = Inr ([codepoints ''physics'', codepoints ''quantum''], 2 / 3)"
    using keyword_overlap_spec [of ascii "codepoints ''The quantum physics of light''"
            "codepoints ''Quantum theory and the physics of stars''"] e
    unfolding set_extract_keywords [symmetric] keywords_examples i c s by auto
  show ?thesis using 1 2 by simp
qed

lemma doc_length_norm_value:
  "doc_length_norm u t = Inr (1 / (1 + ln (1 + real (max 1 (length (simple_tokenize u t))))))"
proof -
  have "0 < ln (1 + real (max 1 (length (simple_tokenize u t))))" by (simp add: ln_gt_zero)
  then show ?thesis
    by (simp add: doc_length_norm_def Let_def math_log_def truediv_def add_nonneg_eq_0_iff)
qed

lemma tokenize_examples:
  "simple_tokenize ascii (codepoints []) = []"
  "simple_tokenize ascii (codepoints ''a'') = [codepoints ''a'']"
  "simple_tokenize ascii (codepoints ''a b'') = [codepoints ''a'', codepoints ''b'']"
  by code_simp+

text \<open>
  Claim C2 as stated fails: the token count is clamped to at least one, so the empty text
  (no token) and a text of one token have the same norm although the token count increases,
  and the norm of a text without tokens is not \<open>1.0\<close>.
\<close>

theorem doc_length_norm_clamp_counterexample:
  "length (simple_tokenize ascii (codepoints [])) < length (simple_tokenize ascii (codepoints ''a''))
   \<and> doc_length_norm ascii (codepoints []) = doc_length_norm ascii (codepoints ''a'')
   \<and> length (simple_tokenize ascii (codepoints [])) = 0
   \<and> doc_length_norm ascii (codepoints []) \<noteq> Inr 1"
proof -
  have "ln (2::real) \<noteq> 0" by simp
  then show ?thesis by (simp add: doc_length_norm_value tokenize_examples)
qed

text \<open>
  Claim C2, amended: for every document text, \<open>doc_length_norm\<close> raises nothing and lies in
  the interval \<open>(0, 1)\<close>, at most \<open>1 / (1 + ln 2)\<close>; it has that value exactly for the texts of
  no token or one token, and it is strictly decreasing in the token count from one token on.
  It is never \<open>1.0\<close>.
\<close>

theorem doc_length_norm_bounds_monotone:
  "\<exists>r1 r2. doc_length_norm u t1 = Inr r1 \<and> doc_length_norm u t2 = Inr r2
     \<and> 0 < r1 \<and> r1 < 1 \<and> r1 \<le> 1 / (1 + ln 2)
     \<and> (length (simple_tokenize u t1) \<le> 1 \<longrightarrow> r1 = 1 / (1 + ln 2))
     \<and> (1 \<le> length (simple_tokenize u t1) \<and> length (simple_tokenize u t1) < length (simple_tokenize u t2) \<longrightarrow> r2 < r1)"
proof -
  define n1 where "n1 = max 1 (length (simple_tokenize u t1))"
  define n2 where "n2 = max 1 (length (simple_tokenize u t2))"
  have n1: "1 \<le> n1" and n2: "1 \<le> n2" by (simp_all add: n1_def n2_def)
  have l1: "ln 2 \<le> ln (1 + real n1)" using n1 by simp
  have pos: "0 < ln (2::real)" by simp
  have dpos: "0 < 1 + ln (1 + real n1)" using l1 pos by linarith
  have a: "0 < 1 / (1 + ln (1 + real n1))" using dpos by simp
  have b: "1 / (1 + ln (1 + real n1)) < 1" using l1 pos dpos by simp
  have c: "1 / (1 + ln (1 + real n1)) \<le> 1 / (1 + ln 2)"
  proof (rule frac_le)
    show "0 < 1 + ln (2::real)" using pos by linarith
    show "1 + ln 2 \<le> 1 + ln (1 + real n1)" using l1 by linarith
  qed simp_all
  have d: "length (simple_tokenize u t1) \<le> 1 \<Longrightarrow> 1 / (1 + ln (1 + real n1)) = 1 / (1 + ln 2)"
    by (simp add: n1_def max_def)
  have e: "1 / (1 + ln (1 + real n2)) < 1 / (1 + ln (1 + real n1))"
    if "1 \<le> length (simple_tokenize u t1)" "length (simple_tokenize u t1) < length (simple_tokenize u t2)"
  proof -
    have "n1 < n2" using that by (simp add: n1_def n2_def)
    then have "ln (1 + real n1) < ln (1 + real n2)" by simp
    then show ?thesis using dpos by (intro frac_less2) simp_all
  qed
  have v1: "doc_length_norm u t1 = Inr (1 / (1 + ln (1 + real n1)))"
    unfolding n1_def by (rule doc_length_norm_value)
  have v2: "doc_length_norm u t2 = Inr (1 / (1 + ln (1 + real n2)))"
    unfolding n2_def by (rule doc_length_norm_value)
  show ?thesis
    using v1 v2 a b c d e by auto
qed

theorem doc_length_norm_bounds_monotone_witness:
  "doc_length_norm ascii (codepoints ''a'') = Inr (1 / (1 + ln 2))
   \<and> doc_length_norm ascii (codepoints ''a b'') = Inr (1 / (1 + ln 3))
   \<and> length (simple_tokenize ascii (codepoints ''a'')) \<le> 1
   \<and> 1 \<le> length (simple_tokenize ascii (codepoints ''a''))
   \<and> length (simple_tokenize ascii (codepoints ''a'')) < length (simple_tokenize ascii (codepoints ''a b''))
   \<and> 1 / (1 + ln 3) < 1 / (1 + ln (2::real))"
  using doc_length_norm_bounds_monotone [of ascii "codepoints ''a''" "codepoints ''a b''"]
  by (auto simp: tokenize_examples doc_length_norm_value)

section \<open>The embedder\<close>

text \<open>The checked division does flag a zero divisor, and the guards keep it away.\<close>

lemma divide_row_ok: "n \<noteq> 0 \<Longrightarrow> divide_row v n = Inr (map (\<lambda>x. x / n) v)"
  by (induction v) (simp_all add: truediv_def)

lemma divide_row_zero: "divide_row (x # xs) 0 = Inl ZeroDivisionError"
  by (simp add: truediv_def)

lemma divide_rows_ok:
  "length ns = length vs \<Longrightarrow> \<forall>n\<in>set ns. n \<noteq> 0 \<Longrightarrow>
   divide_rows vs ns = Inr (map2 (\<lambda>v n. map (\<lambda>x. x / n) v) vs ns)"
  by (induction vs ns rule: divide_rows.induct) (simp_all add: divide_row_ok)

lemma normalize_ok: "normalize (Array2 vs) = Inr (map unit_row vs)"
proof -
  let ?ns = "map (\<lambda>n. if n = 0 then 1 else n) (map linalg_norm vs)"
  have "divide_rows vs ?ns = Inr (map2 (\<lambda>v n. map (\<lambda>x. x / n) v) vs ?ns)"
    by (rule divide_rows_ok) auto
  also have "map2 (\<lambda>v n. map (\<lambda>x. x / n) v) vs ?ns = map unit_row vs"
    by (induction vs) (simp_all add: unit_row_def)
  finally show ?thesis by (simp add: normalize_def)
qed

lemma embed_texts_ok: "ts \<noteq> [] \<Longrightarrow> embed_texts enc ts = Inr (map (\<lambda>t. unit_row (enc t)) ts)"
  by (simp add: embed_texts_def encode_def normalize_ok comp_def)

lemma embed_texts_empty: "embed_texts enc [] = Inl AxisError"
  by (simp add: embed_texts_def encode_def normalize_def)

lemma linalg_norm_zero_iff: "linalg_norm v = 0 \<longleftrightarrow> (\<forall>x\<in>set v. x = 0)"
proof -
  have "sum_list (map (\<lambda>x. x * x) v) = 0 \<longleftrightarrow> (\<forall>y\<in>set (map (\<lambda>x. x * x) v). y = 0)"
    by (rule sum_list_nonneg_eq_0_iff) auto
  then show ?thesis by (auto simp: linalg_norm_def)
qed

lemma unit_row_zero: "linalg_norm v = 0 \<Longrightarrow> unit_row v = v"
  by (simp add: unit_row_def)

lemma length_unit_row: "length (unit_row v) = length v"
  by (simp add: unit_row_def)

lemma embed_query_ok: "embed_query enc q = Inr (unit_row (enc q))"
  by (simp add: embed_query_def Let_def divide_row_ok unit_row_def)

text \<open>
  Claim C10 as stated fails for \<open>embed_texts\<close> on the empty list of texts: the model returns
  an array of one dimension for it, and the norm along \<open>axis=1\<close> in \<open>_normalize\<close> raises
  (an \<open>AxisError\<close>, not a division by zero). The one caller, \<open>build_index\<close>, calls
  \<open>embed_texts\<close> under the guard \<open>if to_compute:\<close> only.
\<close>

theorem embed_texts_empty_counterexample:
  "embed_texts (\<lambda>t. [2, 0]) [] = Inl AxisError"
  by (rule embed_texts_empty)

text \<open>
  Claim C10, amended: normalisation never divides by zero. \<open>embed_query\<close> raises nothing on
  any input; where the raw embedding has norm zero it returns that vector unchanged, which is
  the zero vector, and otherwise the vector divided by its norm. \<open>_normalize\<close> raises nothing
  on any matrix: every row is divided by its norm, with \<open>1\<close> in place of a zero norm, so a
  row of norm zero is returned unchanged. \<open>embed_texts\<close> returns one vector per text on every
  list of texts that is not empty.
\<close>

theorem normalization_total:
  "(\<exists>v. embed_query enc query = Inr v
        \<and> (linalg_norm (enc query) = 0 \<longrightarrow> v = enc query \<and> (\<forall>x\<in>set v. x = 0))
        \<and> (linalg_norm (enc query) \<noteq> 0 \<longrightarrow> v = map (\<lambda>x. x / linalg_norm (enc query)) (enc query)))
   \<and> (\<exists>rows. normalize (Array2 vectors) = Inr rows \<and> length rows = length vectors
        \<and> (\<forall>i<length vectors.
              rows ! i = map (\<lambda>x. x / (if linalg_norm (vectors ! i) = 0 then 1 else linalg_norm (vectors ! i)))
                           (vectors ! i)
              \<and> (linalg_norm (vectors ! i) = 0 \<longrightarrow> rows ! i = vectors ! i)))
   \<and> (texts \<noteq> [] \<longrightarrow>
        (\<exists>embs. embed_texts enc texts = Inr embs \<and> length embs = length texts
           \<and> (\<forall>i<length texts.
                 embs ! i = map (\<lambda>x. x / (if linalg_norm (enc (texts ! i)) = 0 then 1
                                           else linalg_norm (enc (texts ! i))))
                              (enc (texts ! i)))))"
proof -
  have q: "embed_query enc query = Inr (unit_row (enc query))" by (rule embed_query_ok)
  have q0: "linalg_norm (enc query) = 0 \<longrightarrow>
        unit_row (enc query) = enc query \<and> (\<forall>x\<in>set (unit_row (enc query)). x = 0)"
    using linalg_norm_zero_iff [of "enc query"] by (auto simp: unit_row_zero)
  have q1: "linalg_norm (enc query) \<noteq> 0 \<longrightarrow>
        unit_row (enc query) = map (\<lambda>x. x / linalg_norm (enc query)) (enc query)"
    by (simp add: unit_row_def)
  have n: "normalize (Array2 vectors) = Inr (map unit_row vectors)" by (rule normalize_ok)
  have n1: "\<forall>i<length vectors.
      map unit_row vectors ! i
        = map (\<lambda>x. x / (if linalg_norm (vectors ! i) = 0 then 1 else linalg_norm (vectors ! i))) (vectors ! i)
      \<and> (linalg_norm (vectors ! i) = 0 \<longrightarrow> map unit_row vectors ! i = vectors ! i)"
    by (simp add: unit_row_def)
  have t: "\<exists>embs. embed_texts enc texts = Inr embs \<and> length embs = length texts
           \<and> (\<forall>i<length texts.
                 embs ! i = map (\<lambda>x. x / (if linalg_norm (enc (texts ! i)) = 0 then 1
                                           else linalg_norm (enc (texts ! i))))
                              (enc (texts ! i)))"
    if "texts \<noteq> []"
    using embed_texts_ok [OF that, of enc] by (simp add: unit_row_def)
  show ?thesis
    unfolding q n using q0 q1 n1 t by simp
qed

theorem normalization_total_witness:
  "embed_query (\<lambda>t. [0, 0]) ''q'' = Inr [0, 0] \<and> linalg_norm [0, 0] = 0
   \<and> embed_query (\<lambda>t. [2, 0]) ''q'' = Inr [1, 0] \<and> linalg_norm [2, 0] \<noteq> 0
   \<and> normalize (Array2 [[0, 0], [2, 0]]) = Inr [[0, 0], [1, 0]]
   \<and> [''a'', ''b''] \<noteq> []
   \<and> embed_texts (\<lambda>t. if t = ''a'' then [0, 0] else [2, 0]) [''a'', ''b''] = Inr [[0, 0], [1, 0]]"
proof -
  have n: "linalg_norm [0, 0] = 0" "linalg_norm [2, 0] = 2"
    by (simp_all add: linalg_norm_def)
  have m: "normalize (Array2 [[0, 0], [2, 0]]) = Inr [[0, 0], [1, 0]]"
    by (simp add: normalize_def n truediv_def)
  have t: "embed_texts (\<lambda>t. if t = ''a'' then [0, 0] else [2, 0]) [''a'', ''b''] = Inr [[0, 0], [1, 0]]"
    by (simp add: embed_texts_def encode_def m)
  show ?thesis
    using normalization_total [of "\<lambda>t. [0, 0]" "''q''" "[[0, 0], [2, 0]]" "[''a'', ''b'']"]
          normalization_total [of "\<lambda>t. [2, 0]" "''q''" "[]" "[''a'', ''b'']"]
          normalization_total [of "\<lambda>t. if t = ''a'' then [0, 0] else [2, 0]" "''q''" "[]" "[''a'', ''b'']"]
          m t
    by (auto simp: n)
qed

section \<open>The cache\<close>

lemma bulk_loop_other:
  "d \<notin> m_doc_id ` set metas \<Longrightarrow> bulk_loop data metas result d = result d"
  by (induction metas arbitrary: result) (auto simp: Let_def split: option.splits)

lemma bulk_loop_in:
  "distinct (map m_doc_id metas) \<Longrightarrow> meta \<in> set metas \<Longrightarrow>
   bulk_loop data metas result (m_doc_id meta) = Some (decide data meta)"
proof (induction metas arbitrary: result)
  case Nil
  then show ?case by simp
next
  case (Cons m metas)
  show ?case
  proof (cases "meta \<in> set metas")
    case True
    then show ?thesis using Cons by (simp add: Let_def)
  next
    case False
    then have eq: "m = meta" using Cons.prems by simp
    have "m_doc_id meta \<notin> m_doc_id ` set metas" using Cons.prems eq by auto
    then show ?thesis
      using eq by (simp add: Let_def bulk_loop_other decide_def cache_get_def split: option.splits)
  qed
qed

section \<open>Building the index\<close>

lemma load_texts_length: "load_texts files ms = Inr texts \<Longrightarrow> length texts = length ms"
  by (induction ms arbitrary: texts) (auto split: option.splits sum.splits)

lemma check_cache_eq:
  "check_cache data xs =
     (map (\<lambda>(i, m, t). map_option e_embedding (data (m_doc_id m))) xs,
      map (\<lambda>(i, m, t). t) (filter (\<lambda>(i, m, t). miss data m) xs),
      map (\<lambda>(i, m, t). i) (filter (\<lambda>(i, m, t). miss data m) xs))"
  by (induction xs) (auto simp: cache_get_def miss_def split: option.splits)

lemma write_back_length:
  "length (snd (write_back clk docs ps (data, es))) = length es"
  by (induction ps arbitrary: data es) (auto simp: Let_def)

lemma write_back_nth:
  "distinct (map fst ps) \<Longrightarrow> i < length es \<Longrightarrow>
   snd (write_back clk docs ps (data, es)) ! i =
     (case map_of ps i of Some emb \<Rightarrow> Some emb | None \<Rightarrow> es ! i)"
proof (induction ps arbitrary: data es)
  case Nil
  then show ?case by simp
next
  case (Cons p ps)
  obtain idx emb where p: "p = (idx, emb)" by (cases p)
  have notin: "idx \<notin> fst ` set ps" using Cons.prems p by simp
  then have none: "map_of ps idx = None" by (simp add: map_of_eq_None_iff)
  show ?case
    using Cons.prems p none
    by (simp add: Cons.IH Let_def nth_list_update split: option.splits)
qed

lemma write_back_cache_other:
  "d \<notin> (\<lambda>(idx, emb). m_doc_id (docs ! idx)) ` set ps \<Longrightarrow>
   fst (write_back clk docs ps (data, es)) d = data d"
  by (induction ps arbitrary: data es) (auto simp: Let_def cache_set_def)

lemma write_back_cache_written:
  "distinct (map (\<lambda>(idx, emb). m_doc_id (docs ! idx)) ps) \<Longrightarrow> (idx, emb) \<in> set ps \<Longrightarrow>
   fst (write_back clk docs ps (data, es)) (m_doc_id (docs ! idx)) =
     Some \<lparr>e_doc_id = m_doc_id (docs ! idx), e_embedding = emb,
           e_hash = m_hash (docs ! idx), e_updated_at = clk idx\<rparr>"
proof (induction ps arbitrary: data es)
  case Nil
  then show ?case by simp
next
  case (Cons p ps)
  obtain i0 e0 where p: "p = (i0, e0)" by (cases p)
  show ?case
  proof (cases "(idx, emb) \<in> set ps")
    case True
    then show ?thesis using Cons p by (simp add: Let_def)
  next
    case False
    then have eq: "i0 = idx" "e0 = emb" using Cons.prems p by auto
    have "m_doc_id (docs ! idx) \<notin> (\<lambda>(idx, emb). m_doc_id (docs ! idx)) ` set ps"
      using Cons.prems p eq by auto
    then show ?thesis
      using p eq by (simp add: Let_def write_back_cache_other cache_set_def)
  qed
qed

lemma zip_enumerate:
  "length ts = length ms \<Longrightarrow> zip [0..<length ms] (zip ms ts) = map (\<lambda>i. (i, ms ! i, ts ! i)) [0..<length ms]"
  by (rule nth_equalityI) simp_all

lemma check_cache_enumerate:
  assumes "length ts = length ms"
  shows "check_cache data (zip [0..<length ms] (zip ms ts)) =
     (map (\<lambda>i. map_option e_embedding (data (m_doc_id (ms ! i)))) [0..<length ms],
      map (\<lambda>i. ts ! i) (missing data ms),
      missing data ms)"
  by (simp add: check_cache_eq zip_enumerate [OF assms] filter_map comp_def missing_def)

lemma map_of_keyed: "map_of (map (\<lambda>i. (i, f i)) is) j = (if j \<in> set is then Some (f j) else None)"
  by (induction "is") auto

lemma write_back_embeddings:
  assumes len: "length ts = length ms"
  shows "snd (write_back clk ms (map (\<lambda>i. (i, unit_row (enc (ts ! i)))) (missing data ms))
           (data, map (\<lambda>i. map_option e_embedding (data (m_doc_id (ms ! i)))) [0..<length ms]))
         = map Some (map2 (doc_vector enc data) ms ts)"
    (is "snd (write_back clk ms ?ps (data, ?es)) = ?rhs")
proof (rule nth_equalityI)
  show "length (snd (write_back clk ms ?ps (data, ?es))) = length ?rhs"
    using len by (simp add: write_back_length)
next
  fix i
  assume "i < length (snd (write_back clk ms ?ps (data, ?es)))"
  then have i: "i < length ms" by (simp add: write_back_length)
  have d: "distinct (map fst ?ps)"
    by (simp add: comp_def missing_def)
  have "snd (write_back clk ms ?ps (data, ?es)) ! i
        = (case map_of ?ps i of Some emb \<Rightarrow> Some emb | None \<Rightarrow> ?es ! i)"
    by (rule write_back_nth [OF d]) (simp add: i)
  also have "\<dots> = ?rhs ! i"
    using i len
    by (simp add: map_of_keyed missing_def miss_def doc_vector_def split: option.splits)
  finally show "snd (write_back clk ms ?ps (data, ?es)) ! i = ?rhs ! i" .
qed

lemma zip_map_same: "zip is (map f is) = map (\<lambda>i. (i, f i)) is"
  by (induction "is") auto

lemma build_index_eq:
  assumes lt: "load_texts (doc_files eng) (map snd (metadata eng)) = Inr ts"
  shows "build_index enc clk eng =
     (case vstack (map Some (map2 (doc_vector enc (cache eng)) (map snd (metadata eng)) ts)) of
        Inl e \<Rightarrow> Inl e
      | Inr matrix \<Rightarrow>
          Inr (eng\<lparr>cache := built_cache enc clk (cache eng) (map snd (metadata eng)) ts,
                  index_file := Some \<lparr>fi_d = length (hd matrix), fi_vectors = matrix\<rparr>,
                  idmap_file := Some (map_of (zip (map int [0..<length (metadata eng)])
                                                 (map m_doc_id (map snd (metadata eng))))),
                  embed_calls := embed_calls eng @ provider_calls (cache eng) (map snd (metadata eng)) ts\<rparr>))"
proof -
  let ?ms = "map snd (metadata eng)"
  have len: "length ts = length ?ms" using load_texts_length [OF lt] .
  have cc: "check_cache (cache eng) (zip [0..<length ?ms] (zip ?ms ts)) =
     (map (\<lambda>i. map_option e_embedding (cache eng (m_doc_id (?ms ! i)))) [0..<length ?ms],
      map (\<lambda>i. ts ! i) (missing (cache eng) ?ms),
      missing (cache eng) ?ms)"
    by (rule check_cache_enumerate [OF len])
  have z: "zip (missing (cache eng) ?ms)
               (map (\<lambda>t. unit_row (enc t)) (map (\<lambda>i. ts ! i) (missing (cache eng) ?ms)))
           = map (\<lambda>i. (i, unit_row (enc (ts ! i)))) (missing (cache eng) ?ms)"
    by (simp add: comp_def zip_map_same)
  have z2: "zip (missing (cache eng) ?ms) (map (\<lambda>i. ts ! i) (missing (cache eng) ?ms))
           = map (\<lambda>i. (i, ts ! i)) (missing (cache eng) ?ms)"
    by (rule zip_map_same)
  have wb: "write_back clk ?ms (map (\<lambda>i. (i, unit_row (enc (ts ! i)))) (missing (cache eng) ?ms))
             (cache eng, map (\<lambda>i. map_option e_embedding (cache eng (m_doc_id (?ms ! i)))) [0..<length ?ms])
           = (built_cache enc clk (cache eng) ?ms ts, map Some (map2 (doc_vector enc (cache eng)) ?ms ts))"
    using write_back_embeddings [OF len, of clk enc "cache eng"]
    by (simp add: prod_eq_iff built_cache_def)
  show ?thesis
  proof (cases "missing (cache eng) ?ms = []")
    case True
    have wb0: "(cache eng, map (\<lambda>i. map_option e_embedding (cache eng (m_doc_id (?ms ! i)))) [0..<length ?ms])
         = (built_cache enc clk (cache eng) ?ms ts, map Some (map2 (doc_vector enc (cache eng)) ?ms ts))"
      using wb True by simp
    show ?thesis
      using True wb0 cc by (simp add: build_index_def Let_def lt provider_calls_def split: sum.splits)
  next
    case False
    show ?thesis
      using False cc z z2 wb
      by (simp add: build_index_def Let_def lt embed_texts_ok provider_calls_def split: sum.splits)
  qed
qed

lemma load_texts_nth:
  "load_texts files ms = Inr ts \<Longrightarrow> i < length ms \<Longrightarrow> files (m_path (ms ! i)) = Some (ts ! i)"
proof (induction ms arbitrary: ts i)
  case Nil
  then show ?case by simp
next
  case (Cons m ms)
  then show ?case
    by (cases i) (auto split: option.splits sum.splits)
qed

lemma build_index_loads:
  "build_index enc clk eng = Inr eng' \<Longrightarrow> \<exists>ts. load_texts (doc_files eng) (map snd (metadata eng)) = Inr ts"
  by (cases "load_texts (doc_files eng) (map snd (metadata eng))") (simp_all add: build_index_def)

lemma vstack_Some_eq:
  "vstack (map Some vs) =
     (if vs = [] then Inl ValueError
      else if list_all (\<lambda>r. length r = length (hd vs)) vs then Inr vs else Inl ValueError)"
proof -
  have m: "map the (map Some vs) = vs" by (simp add: comp_def)
  have n: "list_ex (\<lambda>e. e = None) (map Some vs) = False" by (simp add: list_ex_iff)
  have e: "(map Some vs = []) = (vs = [])" by simp
  show ?thesis
    by (simp only: vstack_def Let_def m n e if_False)
qed

lemma vstack_Some:
  assumes "vstack (map Some vs) = Inr matrix"
  shows "matrix = vs \<and> vs \<noteq> [] \<and> (\<forall>r\<in>set vs. length r = length (hd vs))"
proof (cases "vs = []")
  case True
  then show ?thesis using assms vstack_Some_eq [of vs] by simp
next
  case False
  show ?thesis
  proof (cases "list_all (\<lambda>r. length r = length (hd vs)) vs")
    case True
    then have "\<forall>r\<in>set vs. length r = length (hd vs)" by (simp only: list_all_iff)
    moreover have "matrix = vs" using assms False True vstack_Some_eq [of vs] by simp
    ultimately show ?thesis using False by blast
  next
    case f: False
    then show ?thesis using assms False vstack_Some_eq [of vs] by simp
  qed
qed

lemma vstack_Some_ok:
  assumes "vs \<noteq> []" and "\<forall>r\<in>set vs. length r = length (hd vs)"
  shows "vstack (map Some vs) = Inr vs"
proof -
  have "list_all (\<lambda>r. length r = length (hd vs)) vs" using assms(2) by (simp only: list_all_iff)
  then show ?thesis using assms(1) vstack_Some_eq [of vs] by simp
qed

lemma built_cache_hit:
  "data d = Some c \<Longrightarrow> built_cache enc clk data ms ts d = Some c"
proof -
  assume h: "data d = Some c"
  have "d \<notin> (\<lambda>(idx, emb). m_doc_id (ms ! idx)) ` set (map (\<lambda>i. (i, unit_row (enc (ts ! i)))) (missing data ms))"
    using h by (auto simp: missing_def miss_def)
  then show ?thesis
    unfolding built_cache_def using h by (simp add: write_back_cache_other)
qed

lemma built_cache_miss:
  assumes d: "distinct (map m_doc_id ms)" and i: "i < length ms" and m: "miss data (ms ! i)"
  shows "built_cache enc clk data ms ts (m_doc_id (ms ! i)) =
     Some \<lparr>e_doc_id = m_doc_id (ms ! i), e_embedding = unit_row (enc (ts ! i)),
           e_hash = m_hash (ms ! i), e_updated_at = clk i\<rparr>"
proof -
  let ?ps = "map (\<lambda>i. (i, unit_row (enc (ts ! i)))) (missing data ms)"
  have "map (\<lambda>(idx, emb). m_doc_id (ms ! idx)) ?ps = map (\<lambda>i. m_doc_id (ms ! i)) (missing data ms)"
    by (simp add: comp_def)
  also have "\<dots> = map m_doc_id (filter (miss data) ms)"
  proof -
    have "filter (miss data) ms = map (\<lambda>i. ms ! i) (missing data ms)"
      unfolding missing_def
      by (subst (1) map_nth [symmetric, of ms]) (simp only: filter_map comp_def)
    then show ?thesis by (simp add: comp_def)
  qed
  finally have "distinct (map (\<lambda>(idx, emb). m_doc_id (ms ! idx)) ?ps)"
    using d by (simp add: distinct_map_filter)
  moreover have "(i, unit_row (enc (ts ! i))) \<in> set ?ps"
    using i m by (auto simp: missing_def)
  ultimately show ?thesis
    unfolding built_cache_def by (rule write_back_cache_written)
qed

lemma map_of_enumerate:
  "i < length ds \<Longrightarrow> map_of (zip (map int [0..<length ds]) ds) (int i) = Some (ds ! i)"
proof -
  assume i: "i < length ds"
  have "map_of (zip (map int [0..<length ds]) ds) (map int [0..<length ds] ! i) = Some (ds ! i)"
    by (rule map_of_zip_nth) (simp_all add: i distinct_map)
  then show ?thesis using i by simp
qed

lemma dom_enumerate:
  "dom (map_of (zip (map int [0..<length ds]) ds)) = int ` {0..<length ds}"
  by (simp add: dom_map_of_zip)

lemma build_index_result:
  assumes ok: "build_index enc clk eng = Inr eng'"
  obtains ts where
    "load_texts (doc_files eng) (map snd (metadata eng)) = Inr ts"
    "length ts = length (metadata eng)"
    "map2 (doc_vector enc (cache eng)) (map snd (metadata eng)) ts \<noteq> []"
    "\<forall>r\<in>set (map2 (doc_vector enc (cache eng)) (map snd (metadata eng)) ts).
        length r = length (hd (map2 (doc_vector enc (cache eng)) (map snd (metadata eng)) ts))"
    "eng' = eng\<lparr>cache := built_cache enc clk (cache eng) (map snd (metadata eng)) ts,
               index_file := Some \<lparr>fi_d = length (hd (map2 (doc_vector enc (cache eng)) (map snd (metadata eng)) ts)),
                                   fi_vectors = map2 (doc_vector enc (cache eng)) (map snd (metadata eng)) ts\<rparr>,
               idmap_file := Some (map_of (zip (map int [0..<length (metadata eng)])
                                              (map m_doc_id (map snd (metadata eng))))),
               embed_calls := embed_calls eng @ provider_calls (cache eng) (map snd (metadata eng)) ts\<rparr>"
proof -
  obtain ts where lt: "load_texts (doc_files eng) (map snd (metadata eng)) = Inr ts"
    using build_index_loads [OF ok] by blast
  let ?vs = "map2 (doc_vector enc (cache eng)) (map snd (metadata eng)) ts"
  have len: "length ts = length (metadata eng)" using load_texts_length [OF lt] by simp
  obtain matrix where vs: "vstack (map Some ?vs) = Inr matrix"
    using ok unfolding build_index_eq [OF lt] by (cases "vstack (map Some ?vs)") simp_all
  have m: "matrix = ?vs" "?vs \<noteq> []" "\<forall>r\<in>set ?vs. length r = length (hd ?vs)"
    using vstack_Some [OF vs] by blast+
  have "eng' = eng\<lparr>cache := built_cache enc clk (cache eng) (map snd (metadata eng)) ts,
               index_file := Some \<lparr>fi_d = length (hd ?vs), fi_vectors = ?vs\<rparr>,
               idmap_file := Some (map_of (zip (map int [0..<length (metadata eng)])
                                              (map m_doc_id (map snd (metadata eng))))),
               embed_calls := embed_calls eng @ provider_calls (cache eng) (map snd (metadata eng)) ts\<rparr>"
    using ok unfolding build_index_eq [OF lt] vs m(1) by simp
  then show thesis using that lt len m by blast
qed

lemma upt_2: "[0..<2] = [0, 1]"
  by (simp add: upt_rec)

lemma unit_row_demo: "unit_row [2, 0] = [1, 0]"
  by (simp add: unit_row_def linalg_norm_def)

lemma demo_build: "build_index (\<lambda>t. [2, 0]) (\<lambda>i. 7) demo_engine = Inr demo_built"
proof -
  have lt: "load_texts (doc_files demo_engine) (map snd (metadata demo_engine)) = Inr [''x'', ''y'']"
    by (simp add: demo_engine_def)
  have mi: "missing (cache demo_engine) (map snd (metadata demo_engine)) = [1]"
    by (simp add: demo_engine_def missing_def miss_def upt_2)
  have vs: "map2 (doc_vector (\<lambda>t. [2, 0]) (cache demo_engine)) (map snd (metadata demo_engine)) [''x'', ''y'']
            = [[0, 1], [1, 0]]"
    by (simp add: demo_engine_def doc_vector_def unit_row_demo)
  have bc: "built_cache (\<lambda>t. [2, 0]) (\<lambda>i. 7) (cache demo_engine) (map snd (metadata demo_engine)) [''x'', ''y'']
            = (cache demo_engine)(''d2'' \<mapsto>
                 \<lparr>e_doc_id = ''d2'', e_embedding = [1, 0], e_hash = ''h2'', e_updated_at = 7\<rparr>)"
    unfolding built_cache_def mi
    by (simp add: demo_engine_def cache_set_def unit_row_demo)
  have pc: "provider_calls (cache demo_engine) (map snd (metadata demo_engine)) [''x'', ''y''] = [[(1, ''y'')]]"
    unfolding provider_calls_def mi by simp
  have vst: "vstack (map Some [[0, 1], [1, 0 :: real]]) = Inr [[0, 1], [1, 0]]"
    by (rule vstack_Some_ok) simp_all
  have len: "length (metadata demo_engine) = 2" by (simp add: demo_engine_def)
  show ?thesis
    unfolding build_index_eq [OF lt] vs vst bc pc len upt_2
    by (simp add: demo_built_def demo_engine_def)
qed

lemma doc_ids_distinct:
  "distinct (map (m_doc_id \<circ> snd) (metadata eng)) \<Longrightarrow> distinct (map m_doc_id (map snd (metadata eng)))"
  by simp

lemma built_cache_vector:
  assumes d: "distinct (map m_doc_id ms)" and i: "i < length ms" and len: "length ts = length ms"
  shows "map_option e_embedding (built_cache enc clk data ms ts (m_doc_id (ms ! i)))
         = Some (doc_vector enc data (ms ! i) (ts ! i))"
proof (cases "data (m_doc_id (ms ! i))")
  case None
  then have "miss data (ms ! i)" by (simp add: miss_def)
  from built_cache_miss [OF d i this, of enc clk ts] None
  show ?thesis by (simp add: doc_vector_def)
next
  case (Some c)
  from built_cache_hit [of data "m_doc_id (ms ! i)" c enc clk ms ts] Some
  show ?thesis by (simp add: doc_vector_def)
qed

text \<open>
  What a successful build lays out: the index file holds as many vectors as the metadata has
  documents, the id-map file has exactly the keys \<open>0 .. N-1\<close>, the id-map gives the
  identifier of the \<open>i\<close>-th document for position \<open>i\<close>, and the vector at position \<open>i\<close> is
  the one the loop took for that document (\<open>doc_vector\<close>), of the index's dimension, and,
  identifiers being unique, the embedding the cache holds for the document after the build.
\<close>

lemma build_index_layout:
  assumes ok: "build_index enc clk eng = Inr eng'"
  shows "\<exists>idx ids. index_file eng' = Some idx \<and> idmap_file eng' = Some ids
     \<and> length (fi_vectors idx) = length (metadata eng)
     \<and> dom ids = int ` {0..<length (metadata eng)}
     \<and> card (dom ids) = length (metadata eng)
     \<and> (\<forall>i<length (metadata eng).
           ids (int i) = Some (m_doc_id (snd (metadata eng ! i)))
           \<and> length (fi_vectors idx ! i) = fi_d idx
           \<and> (\<exists>t. doc_files eng (m_path (snd (metadata eng ! i))) = Some t
                  \<and> fi_vectors idx ! i = doc_vector enc (cache eng) (snd (metadata eng ! i)) t)
           \<and> (distinct (map (m_doc_id \<circ> snd) (metadata eng)) \<longrightarrow>
                map_option e_embedding (cache eng' (m_doc_id (snd (metadata eng ! i))))
                  = Some (fi_vectors idx ! i)))"
proof -
  let ?ms = "map snd (metadata eng)"
  from ok obtain ts where
    lt: "load_texts (doc_files eng) ?ms = Inr ts" and
    len: "length ts = length (metadata eng)" and
    ne: "map2 (doc_vector enc (cache eng)) ?ms ts \<noteq> []" and
    dims: "\<forall>r\<in>set (map2 (doc_vector enc (cache eng)) ?ms ts).
             length r = length (hd (map2 (doc_vector enc (cache eng)) ?ms ts))" and
    eng': "eng' = eng\<lparr>cache := built_cache enc clk (cache eng) ?ms ts,
               index_file := Some \<lparr>fi_d = length (hd (map2 (doc_vector enc (cache eng)) ?ms ts)),
                                   fi_vectors = map2 (doc_vector enc (cache eng)) ?ms ts\<rparr>,
               idmap_file := Some (map_of (zip (map int [0..<length (metadata eng)]) (map m_doc_id ?ms))),
               embed_calls := embed_calls eng @ provider_calls (cache eng) ?ms ts\<rparr>"
    by (rule build_index_result)
  let ?vs = "map2 (doc_vector enc (cache eng)) ?ms ts"
  let ?idx = "\<lparr>fi_d = length (hd ?vs), fi_vectors = ?vs\<rparr>"
  let ?ids = "map_of (zip (map int [0..<length (metadata eng)]) (map m_doc_id ?ms))"
  have a: "index_file eng' = Some ?idx" "idmap_file eng' = Some ?ids"
    by (simp_all add: eng')
  have b: "length (fi_vectors ?idx) = length (metadata eng)" using len by simp
  have c: "dom ?ids = int ` {0..<length (metadata eng)}"
    using dom_enumerate [of "map m_doc_id ?ms"] by simp
  have c': "card (dom ?ids) = length (metadata eng)"
    unfolding c by (simp add: card_image)
  have d: "ids_ok"
    if i: "i < length (metadata eng)"
    and ids_ok: "ids_ok = (?ids (int i) = Some (m_doc_id (snd (metadata eng ! i)))
           \<and> length (fi_vectors ?idx ! i) = fi_d ?idx
           \<and> (\<exists>t. doc_files eng (m_path (snd (metadata eng ! i))) = Some t
                  \<and> fi_vectors ?idx ! i = doc_vector enc (cache eng) (snd (metadata eng ! i)) t)
           \<and> (distinct (map (m_doc_id \<circ> snd) (metadata eng)) \<longrightarrow>
                map_option e_embedding (cache eng' (m_doc_id (snd (metadata eng ! i))))
                  = Some (fi_vectors ?idx ! i)))"
    for i ids_ok
  proof -
    have v: "?vs ! i = doc_vector enc (cache eng) (snd (metadata eng ! i)) (ts ! i)"
      using i len by simp
    have 1: "?ids (int i) = Some (m_doc_id (snd (metadata eng ! i)))"
      using map_of_enumerate [of i "map m_doc_id ?ms"] i by simp
    have "?vs ! i \<in> set ?vs" using i len by (intro nth_mem) simp
    with dims have "length (?vs ! i) = length (hd ?vs)" by blast
    then have 2: "length (fi_vectors ?idx ! i) = fi_d ?idx" by simp
    have "doc_files eng (m_path (?ms ! i)) = Some (ts ! i)"
      using load_texts_nth [OF lt] i by simp
    then have 3: "\<exists>t. doc_files eng (m_path (snd (metadata eng ! i))) = Some t
                  \<and> fi_vectors ?idx ! i = doc_vector enc (cache eng) (snd (metadata eng ! i)) t"
      using i v by auto
    have 4: "map_option e_embedding (cache eng' (m_doc_id (snd (metadata eng ! i)))) = Some (fi_vectors ?idx ! i)"
      if "distinct (map (m_doc_id \<circ> snd) (metadata eng))"
    proof -
      have "map_option e_embedding (built_cache enc clk (cache eng) ?ms ts (m_doc_id (?ms ! i)))
            = Some (doc_vector enc (cache eng) (?ms ! i) (ts ! i))"
        by (rule built_cache_vector) (use that i len in simp_all)
      then show ?thesis using i v by (simp add: eng')
    qed
    show ?thesis unfolding ids_ok using 1 2 3 4 by blast
  qed
  show ?thesis
    unfolding a using b c c' d by blast
qed

lemma bulk_get_changed_decides:
  "distinct (map m_doc_id metas) \<Longrightarrow> meta \<in> set metas \<Longrightarrow>
   bulk_get_changed data metas (m_doc_id meta) = Some (decide data meta)"
  unfolding bulk_get_changed_def by (rule bulk_loop_in)

lemma provider_calls_skip_hits:
  "data (m_doc_id (ms ! i)) = Some c \<Longrightarrow> \<forall>b\<in>set (provider_calls data ms ts). i \<notin> fst ` set b"
  by (auto simp: provider_calls_def missing_def miss_def)

lemma rebuild_same:
  assumes dist: "distinct (map (m_doc_id \<circ> snd) (metadata eng))"
    and ok: "build_index enc clk eng = Inr eng'"
  shows "build_index enc clk2 eng' = Inr eng'"
proof -
  let ?ms = "map snd (metadata eng)"
  from ok obtain ts where
    lt: "load_texts (doc_files eng) ?ms = Inr ts" and
    len: "length ts = length (metadata eng)" and
    ne: "map2 (doc_vector enc (cache eng)) ?ms ts \<noteq> []" and
    dims: "\<forall>r\<in>set (map2 (doc_vector enc (cache eng)) ?ms ts).
             length r = length (hd (map2 (doc_vector enc (cache eng)) ?ms ts))" and
    eng': "eng' = eng\<lparr>cache := built_cache enc clk (cache eng) ?ms ts,
               index_file := Some \<lparr>fi_d = length (hd (map2 (doc_vector enc (cache eng)) ?ms ts)),
                                   fi_vectors = map2 (doc_vector enc (cache eng)) ?ms ts\<rparr>,
               idmap_file := Some (map_of (zip (map int [0..<length (metadata eng)]) (map m_doc_id ?ms))),
               embed_calls := embed_calls eng @ provider_calls (cache eng) ?ms ts\<rparr>"
    by (rule build_index_result)
  let ?C = "built_cache enc clk (cache eng) ?ms ts"
  let ?vs = "map2 (doc_vector enc (cache eng)) ?ms ts"
  have d: "distinct (map m_doc_id ?ms)" using dist by simp
  have lens: "length ts = length ?ms" using len by simp
  have entry: "map_option e_embedding (?C (m_doc_id (?ms ! i))) = Some (doc_vector enc (cache eng) (?ms ! i) (ts ! i))"
    if "i < length ?ms" for i
    using built_cache_vector [OF d that lens] .
  have same: "doc_vector enc ?C (?ms ! i) (ts ! i) = doc_vector enc (cache eng) (?ms ! i) (ts ! i)"
    if "i < length ?ms" for i
    using entry [OF that] by (auto simp: doc_vector_def split: option.splits)
  have vs': "map2 (doc_vector enc ?C) ?ms ts = ?vs"
  proof (rule nth_equalityI)
    show "length (map2 (doc_vector enc ?C) ?ms ts) = length ?vs" by simp
  next
    fix i assume "i < length (map2 (doc_vector enc ?C) ?ms ts)"
    then have i: "i < length ?ms" using lens by simp
    show "map2 (doc_vector enc ?C) ?ms ts ! i = ?vs ! i"
      using i lens same [OF i] by simp
  qed
  have nomiss: "missing ?C ?ms = []"
  proof -
    have "\<not> miss ?C (?ms ! i)" if "i < length ?ms" for i
      using entry [OF that] by (auto simp: miss_def)
    then show ?thesis by (auto simp: missing_def filter_empty_conv)
  qed
  have bc: "built_cache enc clk2 ?C ?ms ts = ?C"
    by (simp add: built_cache_def [of enc clk2 ?C] nomiss)
  have pc: "provider_calls ?C ?ms ts = []"
    by (simp add: provider_calls_def nomiss)
  have vst: "vstack (map Some ?vs) = Inr ?vs"
    using ne dims by (rule vstack_Some_ok)
  have md: "metadata eng' = metadata eng" "doc_files eng' = doc_files eng" "cache eng' = ?C"
    by (simp_all add: eng')
  have lt': "load_texts (doc_files eng') (map snd (metadata eng')) = Inr ts"
    using lt by (simp only: md)
  have "build_index enc clk2 eng' =
      Inr (eng'\<lparr>cache := ?C,
                index_file := Some \<lparr>fi_d = length (hd ?vs), fi_vectors = ?vs\<rparr>,
                idmap_file := Some (map_of (zip (map int [0..<length (metadata eng)]) (map m_doc_id ?ms))),
                embed_calls := embed_calls eng' @ []\<rparr>)"
    unfolding build_index_eq [OF lt'] md vs' vst bc pc by simp
  also have "\<dots> = Inr eng'"
    by (simp add: eng')
  finally show ?thesis .
qed

text \<open>
  Claim C4: with unique document identifiers, for every document whose cache entry has the
  hash of its metadata, \<open>bulk_get_changed\<close> returns that entry unmodified; a build hands no
  position of such a document to the embedding provider, leaves its entry as it is and puts
  the entry's embedding at the document's position. A second build over the state a
  successful build leaves succeeds, makes no provider call and leaves cache, index and id-map
  as they are.
\<close>

theorem cache_hit_reuse:
  assumes dist: "distinct (map (m_doc_id \<circ> snd) (metadata eng))"
  shows "(i < length (metadata eng)
          \<and> cache eng (m_doc_id (snd (metadata eng ! i))) = Some c
          \<and> e_hash c = m_hash (snd (metadata eng ! i)) \<longrightarrow>
            bulk_get_changed (cache eng) (map snd (metadata eng)) (m_doc_id (snd (metadata eng ! i)))
              = Some (Some c)
            \<and> (build_index enc clk eng = Inr eng' \<longrightarrow>
                 (\<exists>calls. embed_calls eng' = embed_calls eng @ calls \<and> (\<forall>b\<in>set calls. i \<notin> fst ` set b))
                 \<and> cache eng' (m_doc_id (snd (metadata eng ! i))) = Some c
                 \<and> map_option (\<lambda>idx. fi_vectors idx ! i) (index_file eng') = Some (e_embedding c)))
       \<and> (build_index enc clk eng = Inr eng' \<longrightarrow>
            (\<exists>eng''. build_index enc clk2 eng' = Inr eng''
               \<and> embed_calls eng'' = embed_calls eng' \<and> cache eng'' = cache eng'
               \<and> index_file eng'' = index_file eng' \<and> idmap_file eng'' = idmap_file eng'))"
proof -
  let ?ms = "map snd (metadata eng)"
  have d: "distinct (map m_doc_id ?ms)" using dist by simp
  have rec: "bulk_get_changed (cache eng) ?ms (m_doc_id (snd (metadata eng ! i))) = Some (Some c)"
    if i: "i < length (metadata eng)"
    and hit: "cache eng (m_doc_id (snd (metadata eng ! i))) = Some c"
    and h: "e_hash c = m_hash (snd (metadata eng ! i))"
  proof -
    have "snd (metadata eng ! i) \<in> set ?ms" using i by (metis length_map nth_map nth_mem)
    from bulk_get_changed_decides [OF d this, of "cache eng"] hit h
    show ?thesis by (simp add: decide_def)
  qed
  have bld: "(\<exists>calls. embed_calls eng' = embed_calls eng @ calls \<and> (\<forall>b\<in>set calls. i \<notin> fst ` set b))
             \<and> cache eng' (m_doc_id (snd (metadata eng ! i))) = Some c
             \<and> map_option (\<lambda>idx. fi_vectors idx ! i) (index_file eng') = Some (e_embedding c)"
    if i: "i < length (metadata eng)"
    and hit: "cache eng (m_doc_id (snd (metadata eng ! i))) = Some c"
    and ok: "build_index enc clk eng = Inr eng'"
  proof -
    from ok obtain ts where
      len: "length ts = length (metadata eng)" and
      eng': "eng' = eng\<lparr>cache := built_cache enc clk (cache eng) ?ms ts,
               index_file := Some \<lparr>fi_d = length (hd (map2 (doc_vector enc (cache eng)) ?ms ts)),
                                   fi_vectors = map2 (doc_vector enc (cache eng)) ?ms ts\<rparr>,
               idmap_file := Some (map_of (zip (map int [0..<length (metadata eng)]) (map m_doc_id ?ms))),
               embed_calls := embed_calls eng @ provider_calls (cache eng) ?ms ts\<rparr>"
      by (rule build_index_result)
    have hit': "cache eng (m_doc_id (?ms ! i)) = Some c" using hit i by simp
    have 1: "\<forall>b\<in>set (provider_calls (cache eng) ?ms ts). i \<notin> fst ` set b"
      using hit' by (rule provider_calls_skip_hits)
    have 2: "cache eng' (m_doc_id (snd (metadata eng ! i))) = Some c"
      using built_cache_hit [of "cache eng" "m_doc_id (snd (metadata eng ! i))" c enc clk ?ms ts] hit
      by (simp add: eng')
    have 3: "map_option (\<lambda>idx. fi_vectors idx ! i) (index_file eng') = Some (e_embedding c)"
      using i len hit by (simp add: eng' doc_vector_def)
    have "embed_calls eng' = embed_calls eng @ provider_calls (cache eng) ?ms ts"
      by (simp add: eng')
    then show ?thesis using 1 2 3 by blast
  qed
  have reb: "\<exists>eng''. build_index enc clk2 eng' = Inr eng''
               \<and> embed_calls eng'' = embed_calls eng' \<and> cache eng'' = cache eng'
               \<and> index_file eng'' = index_file eng' \<and> idmap_file eng'' = idmap_file eng'"
    if ok: "build_index enc clk eng = Inr eng'"
    using rebuild_same [OF dist ok, of clk2] by simp
  show ?thesis using rec bld reb by blast
qed

lemma build_index_layout_demo:
  "build_index (\<lambda>t. [2, 0]) (\<lambda>i. 7) demo_engine = Inr demo_built
   \<and> length (metadata demo_engine) = 2
   \<and> (\<exists>idx ids. index_file demo_built = Some idx \<and> idmap_file demo_built = Some ids
         \<and> length (fi_vectors idx) = 2 \<and> dom ids = {0, 1}
         \<and> ids 0 = Some ''d1'' \<and> ids 1 = Some ''d2''
         \<and> fi_vectors idx = [[0, 1], [1, 0]])"
proof -
  have len: "length (metadata demo_engine) = 2" by (simp add: demo_engine_def)
  from build_index_layout [OF demo_build]
  obtain idx ids where
    f: "index_file demo_built = Some idx" "idmap_file demo_built = Some ids"
       "length (fi_vectors idx) = length (metadata demo_engine)"
       "dom ids = int ` {0..<length (metadata demo_engine)}"
    and al: "\<forall>i<length (metadata demo_engine). ids (int i) = Some (m_doc_id (snd (metadata demo_engine ! i)))"
    by blast
  have "ids (int 0) = Some ''d1''" "ids (int 1) = Some ''d2''"
    using al [rule_format, of 0] al [rule_format, of 1] by (simp_all add: demo_engine_def)
  moreover have "int ` {0..<2} = {0, 1}" by (auto simp: image_iff)
  moreover have "fi_vectors idx = [[0, 1], [1, 0]]" using f(1) by (auto simp: demo_built_def)
  ultimately show ?thesis using demo_build f len by auto
qed

text \<open>
  Where every cache entry of a document of the metadata holds the embedding of the
  document's current text, the vector at every position is the embedding of the document at
  that position.
\<close>

lemma build_index_consistent_cache:
  assumes ok: "build_index enc clk eng = Inr eng'"
    and cons: "\<forall>i<length (metadata eng). \<forall>c t.
                 cache eng (m_doc_id (snd (metadata eng ! i))) = Some c
                 \<and> doc_files eng (m_path (snd (metadata eng ! i))) = Some t
                 \<longrightarrow> e_embedding c = unit_row (enc t)"
    and i: "i < length (metadata eng)"
  shows "\<exists>idx t. index_file eng' = Some idx
           \<and> doc_files eng (m_path (snd (metadata eng ! i))) = Some t
           \<and> fi_vectors idx ! i = unit_row (enc t)"
proof -
  from build_index_layout [OF ok] obtain idx where
    idx: "index_file eng' = Some idx" and
    al: "\<forall>i<length (metadata eng).
           \<exists>t. doc_files eng (m_path (snd (metadata eng ! i))) = Some t
                \<and> fi_vectors idx ! i = doc_vector enc (cache eng) (snd (metadata eng ! i)) t"
    by blast
  from al i obtain t where
    t: "doc_files eng (m_path (snd (metadata eng ! i))) = Some t"
       "fi_vectors idx ! i = doc_vector enc (cache eng) (snd (metadata eng ! i)) t"
    by blast
  have "doc_vector enc (cache eng) (snd (metadata eng ! i)) t = unit_row (enc t)"
    using cons i t(1) by (auto simp: doc_vector_def split: option.splits)
  then show ?thesis using idx t by auto
qed

text \<open>
  Claim C5 holds for the sizes and for the id-map, and fails for the vectors: the build
  takes the embedding of any cache entry it finds under the identifier, whatever its hash
  (the defect of claim C1). Here the second document was edited after it was cached. The
  build succeeds with two vectors and the id-map \<open>0 \<mapsto> d1\<close>, \<open>1 \<mapsto> d2\<close>, but the vector at
  position \<open>1\<close> is the stale \<open>[0, 1]\<close>, while the embedding of the text of \<open>d2\<close> is \<open>[1, 0]\<close>.
\<close>

theorem build_index_stale_vector_at_position:
  "build_index (\<lambda>t. [2, 0]) (\<lambda>i. 7) stale_pair_engine
     = Inr (stale_pair_engine
             \<lparr>cache := (cache stale_pair_engine)(''d1'' \<mapsto>
                  \<lparr>e_doc_id = ''d1'', e_embedding = [1, 0], e_hash = ''h1'', e_updated_at = 7\<rparr>),
               index_file := Some \<lparr>fi_d = 2, fi_vectors = [[1, 0], [0, 1]]\<rparr>,
               idmap_file := Some (map_of [(0, ''d1''), (1, ''d2'')]),
               embed_calls := [[(0, ''x'')]]\<rparr>)
   \<and> m_doc_id (snd (metadata stale_pair_engine ! 1)) = ''d2''
   \<and> doc_files stale_pair_engine (m_path (snd (metadata stale_pair_engine ! 1))) = Some ''edited text''
   \<and> embed_texts (\<lambda>t. [2, 0]) [''edited text''] = Inr [[1, 0]]
   \<and> [[1, 0], [0, 1 :: real]] ! 1 \<noteq> [1, 0]"
proof -
  let ?e = stale_pair_engine
  have lt: "load_texts (doc_files ?e) (map snd (metadata ?e)) = Inr [''x'', ''edited text'']"
    by (simp add: stale_pair_engine_def)
  have mi: "missing (cache ?e) (map snd (metadata ?e)) = [0]"
    by (simp add: stale_pair_engine_def missing_def miss_def upt_2)
  have vs: "map2 (doc_vector (\<lambda>t. [2, 0]) (cache ?e)) (map snd (metadata ?e)) [''x'', ''edited text'']
            = [[1, 0], [0, 1]]"
    by (simp add: stale_pair_engine_def doc_vector_def unit_row_demo)
  have bc: "built_cache (\<lambda>t. [2, 0]) (\<lambda>i. 7) (cache ?e) (map snd (metadata ?e)) [''x'', ''edited text'']
            = (cache ?e)(''d1'' \<mapsto>
                 \<lparr>e_doc_id = ''d1'', e_embedding = [1, 0], e_hash = ''h1'', e_updated_at = 7\<rparr>)"
    unfolding built_cache_def mi
    by (simp add: stale_pair_engine_def cache_set_def unit_row_demo)
  have pc: "provider_calls (cache ?e) (map snd (metadata ?e)) [''x'', ''edited text''] = [[(0, ''x'')]]"
    unfolding provider_calls_def mi by simp
  have vst: "vstack (map Some [[1, 0], [0, 1 :: real]]) = Inr [[1, 0], [0, 1]]"
    by (rule vstack_Some_ok) simp_all
  have len: "length (metadata ?e) = 2" by (simp add: stale_pair_engine_def)
  have b: "build_index (\<lambda>t. [2, 0]) (\<lambda>i. 7) ?e
     = Inr (?e\<lparr>cache := (cache ?e)(''d1'' \<mapsto>
                  \<lparr>e_doc_id = ''d1'', e_embedding = [1, 0], e_hash = ''h1'', e_updated_at = 7\<rparr>),
               index_file := Some \<lparr>fi_d = 2, fi_vectors = [[1, 0], [0, 1]]\<rparr>,
               idmap_file := Some (map_of [(0, ''d1''), (1, ''d2'')]),
               embed_calls := [[(0, ''x'')]]\<rparr>)"
    unfolding build_index_eq [OF lt] vs vst bc pc len upt_2
    by (simp add: stale_pair_engine_def)
  have e: "embed_texts (\<lambda>t. [2, 0]) [''edited text''] = Inr [[1, 0]]"
    by (simp add: embed_texts_ok unit_row_demo)
  show ?thesis using b e by (simp add: stale_pair_engine_def)
qed

theorem cache_hit_reuse_witness:
  "distinct (map (m_doc_id \<circ> snd) (metadata demo_engine))
   \<and> (0::nat) < length (metadata demo_engine)
   \<and> cache demo_engine (m_doc_id (snd (metadata demo_engine ! 0)))
       = Some \<lparr>e_doc_id = ''d1'', e_embedding = [0, 1], e_hash = ''h1'', e_updated_at = 0\<rparr>
   \<and> e_hash \<lparr>e_doc_id = ''d1'', e_embedding = [0, 1], e_hash = ''h1'', e_updated_at = 0\<rparr>
       = m_hash (snd (metadata demo_engine ! 0))
   \<and> build_index (\<lambda>t. [2, 0]) (\<lambda>i. 7) demo_engine = Inr demo_built
   \<and> bulk_get_changed (cache demo_engine) (map snd (metadata demo_engine)) ''d1''
       = Some (Some \<lparr>e_doc_id = ''d1'', e_embedding = [0, 1], e_hash = ''h1'', e_updated_at = 0\<rparr>)
   \<and> embed_calls demo_built = [[(1, ''y'')]]
   \<and> cache demo_built ''d1''
       = Some \<lparr>e_doc_id = ''d1'', e_embedding = [0, 1], e_hash = ''h1'', e_updated_at = 0\<rparr>
   \<and> (\<exists>eng''. build_index (\<lambda>t. [2, 0]) (\<lambda>i. 9) demo_built = Inr eng''
         \<and> embed_calls eng'' = [[(1, ''y'')]] \<and> cache eng'' = cache demo_built
         \<and> index_file eng'' = index_file demo_built)"
proof -
  let ?c = "\<lparr>e_doc_id = ''d1'', e_embedding = [0, 1], e_hash = ''h1'', e_updated_at = 0\<rparr>"
  have d: "distinct (map (m_doc_id \<circ> snd) (metadata demo_engine))" by (simp add: demo_engine_def)
  have h: "0 < length (metadata demo_engine)"
    "cache demo_engine (m_doc_id (snd (metadata demo_engine ! 0))) = Some ?c"
    "e_hash ?c = m_hash (snd (metadata demo_engine ! 0))"
    "m_doc_id (snd (metadata demo_engine ! 0)) = ''d1''"
    by (simp_all add: demo_engine_def)
  from cache_hit_reuse [OF d, of 0 ?c "\<lambda>t. [2, 0]" "\<lambda>i. 7" demo_built "\<lambda>i. 9"] h demo_build
  have r: "bulk_get_changed (cache demo_engine) (map snd (metadata demo_engine)) ''d1'' = Some (Some ?c)"
    "cache demo_built ''d1'' = Some ?c"
    "\<exists>eng''. build_index (\<lambda>t. [2, 0]) (\<lambda>i. 9) demo_built = Inr eng''
        \<and> embed_calls eng'' = embed_calls demo_built \<and> cache eng'' = cache demo_built
        \<and> index_file eng'' = index_file demo_built \<and> idmap_file eng'' = idmap_file demo_built"
    by simp_all
  have c: "embed_calls demo_built = [[(1, ''y'')]]" by (simp add: demo_built_def)
  have rb: "\<exists>eng''. build_index (\<lambda>t. [2, 0]) (\<lambda>i. 9) demo_built = Inr eng''
         \<and> embed_calls eng'' = [[(1, ''y'')]] \<and> cache eng'' = cache demo_built
         \<and> index_file eng'' = index_file demo_built"
    using r(3) c by auto
  show ?thesis using d h(1,2,3) demo_build r(1,2) c rb by blast
qed

text \<open>
  A document without a cache entry does get a fresh embedding, in the cache under its
  current hash and in the index at its position.
\<close>

lemma build_index_writes_missing:
  assumes dist: "distinct (map (m_doc_id \<circ> snd) (metadata eng))"
    and ok: "build_index enc clk eng = Inr eng'"
    and i: "i < length (metadata eng)"
    and none: "cache eng (m_doc_id (snd (metadata eng ! i))) = None"
  shows "\<exists>t. doc_files eng (m_path (snd (metadata eng ! i))) = Some t
           \<and> cache eng' (m_doc_id (snd (metadata eng ! i)))
               = Some \<lparr>e_doc_id = m_doc_id (snd (metadata eng ! i)), e_embedding = unit_row (enc t),
                       e_hash = m_hash (snd (metadata eng ! i)), e_updated_at = clk i\<rparr>
           \<and> map_option (\<lambda>idx. fi_vectors idx ! i) (index_file eng') = Some (unit_row (enc t))"
proof -
  let ?ms = "map snd (metadata eng)"
  from ok obtain ts where
    lt: "load_texts (doc_files eng) ?ms = Inr ts" and
    len: "length ts = length (metadata eng)" and
    eng': "eng' = eng\<lparr>cache := built_cache enc clk (cache eng) ?ms ts,
               index_file := Some \<lparr>fi_d = length (hd (map2 (doc_vector enc (cache eng)) ?ms ts)),
                                   fi_vectors = map2 (doc_vector enc (cache eng)) ?ms ts\<rparr>,
               idmap_file := Some (map_of (zip (map int [0..<length (metadata eng)]) (map m_doc_id ?ms))),
               embed_calls := embed_calls eng @ provider_calls (cache eng) ?ms ts\<rparr>"
    by (rule build_index_result)
  have d: "distinct (map m_doc_id ?ms)" using dist by simp
  have i': "i < length ?ms" using i by simp
  have m: "miss (cache eng) (?ms ! i)" using none i by (simp add: miss_def)
  have 1: "doc_files eng (m_path (snd (metadata eng ! i))) = Some (ts ! i)"
    using load_texts_nth [OF lt i'] i by simp
  have 2: "cache eng' (m_doc_id (snd (metadata eng ! i)))
               = Some \<lparr>e_doc_id = m_doc_id (snd (metadata eng ! i)), e_embedding = unit_row (enc (ts ! i)),
                       e_hash = m_hash (snd (metadata eng ! i)), e_updated_at = clk i\<rparr>"
    using built_cache_miss [OF d i' m, of enc clk ts] i by (simp add: eng')
  have 3: "map_option (\<lambda>idx. fi_vectors idx ! i) (index_file eng') = Some (unit_row (enc (ts ! i)))"
    using i len none by (simp add: eng' doc_vector_def)
  show ?thesis using 1 2 3 by blast
qed

text \<open>
  Claim C1 holds for \<open>bulk_get_changed\<close> and fails for \<open>build_index\<close>, which asks
  \<open>cache.get\<close> and never compares hashes. For a document edited after it was cached,
  \<open>bulk_get_changed\<close> answers \<open>None\<close>, yet the build makes no provider call, puts the stale
  vector \<open>[0, 1]\<close> in the index instead of the fresh \<open>[1, 0]\<close>, and leaves the old hash in
  the cache.
\<close>

theorem build_index_reuses_stale_entry:
  "bulk_get_changed (cache stale_engine) (map snd (metadata stale_engine)) ''d1'' = Some None
   \<and> embed_texts (\<lambda>t. [2, 0]) [''edited text''] = Inr [[1, 0]]
   \<and> build_index (\<lambda>t. [2, 0]) (\<lambda>i. 7) stale_engine
       = Inr (stale_engine\<lparr>index_file := Some \<lparr>fi_d = 2, fi_vectors = [[0, 1]]\<rparr>,
                            idmap_file := Some (map_of [(0, ''d1'')])\<rparr>)
   \<and> map_option e_hash (cache stale_engine ''d1'') = Some ''old''
   \<and> m_hash (snd (metadata stale_engine ! 0)) = ''new''"
proof -
  have r: "bulk_get_changed (cache stale_engine) (map snd (metadata stale_engine)) ''d1'' = Some None"
    by (simp add: bulk_get_changed_def stale_engine_def cache_get_def)
  have e: "embed_texts (\<lambda>t. [2, 0]) [''edited text''] = Inr [[1, 0]]"
    by (simp add: embed_texts_ok unit_row_demo)
  have lt: "load_texts (doc_files stale_engine) (map snd (metadata stale_engine)) = Inr [''edited text'']"
    by (simp add: stale_engine_def)
  have mi: "missing (cache stale_engine) (map snd (metadata stale_engine)) = []"
    by (simp add: stale_engine_def missing_def miss_def)
  have vs: "map2 (doc_vector (\<lambda>t. [2, 0]) (cache stale_engine)) (map snd (metadata stale_engine)) [''edited text'']
            = [[0, 1]]"
    by (simp add: stale_engine_def doc_vector_def)
  have bc: "built_cache (\<lambda>t. [2, 0]) (\<lambda>i. 7) (cache stale_engine) (map snd (metadata stale_engine)) [''edited text'']
            = cache stale_engine"
    unfolding built_cache_def mi by simp
  have pc: "provider_calls (cache stale_engine) (map snd (metadata stale_engine)) [''edited text''] = []"
    unfolding provider_calls_def mi by simp
  have vst: "vstack (map Some [[0, 1 :: real]]) = Inr [[0, 1]]"
    by (rule vstack_Some_ok) simp_all
  have len: "length (metadata stale_engine) = 1" by (simp add: stale_engine_def)
  have b: "build_index (\<lambda>t. [2, 0]) (\<lambda>i. 7) stale_engine
       = Inr (stale_engine\<lparr>index_file := Some \<lparr>fi_d = 2, fi_vectors = [[0, 1]]\<rparr>,
                            idmap_file := Some (map_of [(0, ''d1'')])\<rparr>)"
    unfolding build_index_eq [OF lt] vs vst bc pc len
    by (simp add: stale_engine_def)
  show ?thesis using r e b by (simp add: stale_engine_def)
qed

section \<open>Searching\<close>

lemma set_sorted_reverse: "set (sorted_reverse f xs) = set xs"
  by (simp add: sorted_reverse_def)

lemma length_sorted_reverse: "length (sorted_reverse f xs) = length xs"
  by (simp add: sorted_reverse_def)

lemma resolve_ok:
  "list_all (resolvable ids md) hits \<Longrightarrow>
   \<exists>res. resolve ids md hits = Inr res \<and> map c_score res = map fst hits"
proof (induction hits)
  case Nil
  then show ?case by simp
next
  case (Cons h hits)
  obtain s i where h: "h = (s, i)" by (cases h)
  from Cons.prems obtain d m where dm: "ids i = Some d" "map_of md d = Some m"
    by (auto simp: resolvable_def h)
  from Cons obtain res where "resolve ids md hits = Inr res" "map c_score res = map fst hits"
    by auto
  then show ?case by (simp add: h dm)
qed

lemma resolve_fail:
  "list_all (resolvable ids md) hits \<Longrightarrow> ids j = None \<Longrightarrow>
   resolve ids md (hits @ (s, j) # rest) = Inl (IdMapKeyError j)"
proof (induction hits)
  case Nil
  then show ?case by simp
next
  case (Cons h hits)
  obtain s' i where h: "h = (s', i)" by (cases h)
  from Cons.prems obtain d m where dm: "ids i = Some d" "map_of md d = Some m"
    by (auto simp: resolvable_def h)
  from Cons have "resolve ids md (hits @ (s, j) # rest) = Inl (IdMapKeyError j)" by simp
  then show ?case by (simp add: h dm)
qed

lemma best_resolvable:
  assumes al: "aligned idx ids md"
  shows "list_all (resolvable ids md)
           (take n (sorted_reverse fst (zip (map (inner_product q) (fi_vectors idx))
                                            (map int [0..<length (fi_vectors idx)]))))"
proof -
  let ?scored = "zip (map (inner_product q) (fi_vectors idx)) (map int [0..<length (fi_vectors idx)])"
  have "resolvable ids md h" if "h \<in> set ?scored" for h
  proof -
    from that obtain j where "j < length (fi_vectors idx)" "snd h = int j"
      by (auto simp: set_zip)
    then show ?thesis using al by (auto simp: aligned_def resolvable_def)
  qed
  moreover have "set (take n (sorted_reverse fst ?scored)) \<subseteq> set ?scored"
    using set_take_subset [of n "sorted_reverse fst ?scored"] by (simp add: set_sorted_reverse)
  ultimately show ?thesis by (auto simp: list_all_iff)
qed

lemma search_loaded:
  assumes "index eng = Some idx" "id_map eng = Some ids"
    and "length (enc query) = fi_d idx" and "1 \<le> top_k"
  shows "search enc eng query top_k =
     resolve ids (metadata eng)
       (take (nat top_k) (sorted_reverse fst (zip (map (inner_product (unit_row (enc query))) (fi_vectors idx))
                                                  (map int [0..<length (fi_vectors idx)])))
        @ replicate (nat top_k - min (length (fi_vectors idx)) (nat top_k)) (flt_lowest, - 1))"
  using assms
  by (simp add: search_def embed_query_ok faiss_search_def Let_def length_unit_row length_sorted_reverse)

lemma search_within:
  assumes ld: "index eng = Some idx" "id_map eng = Some ids"
    and al: "aligned idx ids (metadata eng)"
    and dim: "length (enc query) = fi_d idx" and k: "1 \<le> top_k"
    and le: "top_k \<le> int (length (fi_vectors idx))"
  shows "\<exists>res. search enc eng query top_k = Inr res \<and> length res = nat top_k
           \<and> sorted_wrt (\<lambda>a b. c_score a \<ge> c_score b) res"
proof -
  let ?scored = "zip (map (inner_product (unit_row (enc query))) (fi_vectors idx))
                     (map int [0..<length (fi_vectors idx)])"
  let ?best = "take (nat top_k) (sorted_reverse fst ?scored)"
  have pad: "nat top_k - min (length (fi_vectors idx)) (nat top_k) = 0" using le k by simp
  have s: "search enc eng query top_k = resolve ids (metadata eng) ?best"
    unfolding search_loaded [of eng idx ids enc query top_k, OF ld(1) ld(2) dim k] pad by simp
  obtain res where r: "resolve ids (metadata eng) ?best = Inr res" "map c_score res = map fst ?best"
    using resolve_ok [OF best_resolvable [OF al]] by blast
  have "length (map c_score res) = length (map fst ?best)" using r(2) by simp
  then have len: "length res = nat top_k" using le k by (simp add: length_sorted_reverse)
  have "sorted_wrt (\<lambda>a b. fst a \<ge> fst b) ?best"
    using sorted_wrt_prefix [OF take_is_prefix sorted_reverse_desc] .
  then have "sorted_wrt (\<ge>) (map fst ?best)" by (simp add: sorted_wrt_map)
  then have "sorted_wrt (\<ge>) (map c_score res)" using r(2) by simp
  then have "sorted_wrt (\<lambda>a b. c_score a \<ge> c_score b) res" by (simp add: sorted_wrt_map)
  then show ?thesis using s r(1) len by simp
qed

lemma search_beyond:
  assumes ld: "index eng = Some idx" "id_map eng = Some ids"
    and al: "aligned idx ids (metadata eng)"
    and dim: "length (enc query) = fi_d idx"
    and gt: "int (length (fi_vectors idx)) < top_k"
  shows "search enc eng query top_k = Inl (IdMapKeyError (- 1))"
proof -
  have k: "1 \<le> top_k" using gt by simp
  obtain n where pad: "nat top_k - min (length (fi_vectors idx)) (nat top_k) = Suc n"
    using gt by (cases "nat top_k - min (length (fi_vectors idx)) (nat top_k)") auto
  have none: "ids (- 1) = None" using al by (simp add: aligned_def)
  show ?thesis
    unfolding search_loaded [of eng idx ids enc query top_k, OF ld(1) ld(2) dim k] pad replicate_Suc
    by (rule resolve_fail [OF best_resolvable [OF al] none])
qed

lemma search_not_loaded:
  "index eng = None \<or> id_map eng = None \<Longrightarrow> search enc eng query top_k = Inl IndexNotReady"
  by (auto simp: search_def split: option.splits)

lemma load_index_built:
  "index_file eng = Some idx \<Longrightarrow> idmap_file eng = Some ids \<Longrightarrow>
   load_index eng = Inr (eng\<lparr>index := Some idx, id_map := Some ids\<rparr>)"
  by (simp add: load_index_def)

lemma built_loaded_aligned:
  assumes ok: "build_index enc clk eng = Inr eng1"
    and ld: "load_index eng1 = Inr eng2"
    and keys: "\<forall>(k, m)\<in>set (metadata eng). k = m_doc_id m"
  shows "\<exists>idx ids. index eng2 = Some idx \<and> id_map eng2 = Some ids
           \<and> aligned idx ids (metadata eng2) \<and> length (fi_vectors idx) = length (metadata eng)"
proof -
  let ?ms = "map snd (metadata eng)"
  from ok obtain ts where
    len: "length ts = length (metadata eng)" and
    eng1: "eng1 = eng\<lparr>cache := built_cache enc clk (cache eng) ?ms ts,
               index_file := Some \<lparr>fi_d = length (hd (map2 (doc_vector enc (cache eng)) ?ms ts)),
                                   fi_vectors = map2 (doc_vector enc (cache eng)) ?ms ts\<rparr>,
               idmap_file := Some (map_of (zip (map int [0..<length (metadata eng)]) (map m_doc_id ?ms))),
               embed_calls := embed_calls eng @ provider_calls (cache eng) ?ms ts\<rparr>"
    by (rule build_index_result)
  let ?idx = "\<lparr>fi_d = length (hd (map2 (doc_vector enc (cache eng)) ?ms ts)),
               fi_vectors = map2 (doc_vector enc (cache eng)) ?ms ts\<rparr>"
  let ?ids = "map_of (zip (map int [0..<length (metadata eng)]) (map m_doc_id ?ms))"
  have eng2: "eng2 = eng1\<lparr>index := Some ?idx, id_map := Some ?ids\<rparr>"
    using ld by (simp add: load_index_def eng1)
  have n: "length (fi_vectors ?idx) = length (metadata eng)" using len by simp
  have "\<exists>d m. ?ids (int i) = Some d \<and> map_of (metadata eng) d = Some m"
    if i: "i < length (metadata eng)" for i
  proof -
    have 1: "?ids (int i) = Some (m_doc_id (snd (metadata eng ! i)))"
      using map_of_enumerate [of i "map m_doc_id ?ms"] i by simp
    have "metadata eng ! i \<in> set (metadata eng)" using i by simp
    then have "fst (metadata eng ! i) = m_doc_id (snd (metadata eng ! i))"
      using keys by (auto simp: case_prod_beta)
    then have "m_doc_id (snd (metadata eng ! i)) \<in> fst ` set (metadata eng)"
      using i by (metis image_eqI nth_mem)
    then have "map_of (metadata eng) (m_doc_id (snd (metadata eng ! i))) \<noteq> None"
      by (simp add: map_of_eq_None_iff)
    then show ?thesis using 1 by auto
  qed
  moreover have "?ids (- 1) = None"
  proof -
    have "(- 1 :: int) \<notin> dom ?ids"
      using dom_enumerate [of "map m_doc_id ?ms"] by auto
    then show ?thesis by blast
  qed
  ultimately have "aligned ?idx ?ids (metadata eng2)"
    using n by (simp add: aligned_def eng2 eng1)
  then show ?thesis using n by (simp add: eng2)
qed

text \<open>
  Claim C3, amended: if the index or the id-map has not been loaded, \<open>search\<close> fails with
  the index-not-ready error. For a loaded index over \<open>N\<close> documents whose id-map has an entry
  for every position, each a key of the metadata, and whose dimension is that of the query
  embedding: for every \<open>top_k\<close> with \<open>1 \<le> top_k \<le> N\<close>, \<open>search\<close> returns exactly \<open>top_k\<close>
  candidates, in order of non-increasing score; for every \<open>top_k > N\<close> it raises the
  \<open>KeyError\<close> of the id-map lookup for position \<open>-1\<close>.
\<close>

theorem search_contract:
  "(index eng = None \<or> id_map eng = None \<longrightarrow> search enc eng query top_k = Inl IndexNotReady)
   \<and> (index eng = Some idx \<and> id_map eng = Some ids \<and> aligned idx ids (metadata eng)
        \<and> length (enc query) = fi_d idx \<longrightarrow>
        (1 \<le> top_k \<and> top_k \<le> int (length (fi_vectors idx)) \<longrightarrow>
           (\<exists>res. search enc eng query top_k = Inr res \<and> length res = nat top_k
                  \<and> sorted_wrt (\<lambda>a b. c_score a \<ge> c_score b) res))
        \<and> (int (length (fi_vectors idx)) < top_k \<longrightarrow>
             search enc eng query top_k = Inl (IdMapKeyError (- 1))))"
  using search_not_loaded [of eng enc query top_k]
        search_within [of eng idx ids enc query top_k]
        search_beyond [of eng idx ids enc query top_k]
  by blast

lemma demo_load: "load_index demo_built = Inr demo_loaded"
  by (simp add: load_index_def demo_built_def demo_loaded_def)

lemma demo_loaded_fields:
  "index demo_loaded = Some \<lparr>fi_d = 2, fi_vectors = [[0, 1], [1, 0]]\<rparr>"
  "id_map demo_loaded = Some (map_of [(0, ''d1''), (1, ''d2'')])"
  "metadata demo_loaded = metadata demo_engine"
  by (simp_all add: demo_loaded_def demo_built_def)

lemma demo_aligned:
  "aligned \<lparr>fi_d = 2, fi_vectors = [[0, 1], [1, 0]]\<rparr> (map_of [(0, ''d1''), (1, ''d2'')])
     (metadata demo_loaded)"
proof -
  have "i = 0 \<or> i = 1" if "i < 2" for i :: nat using that by auto
  then show ?thesis
    by (auto simp: aligned_def demo_loaded_fields demo_engine_def)
qed

text \<open>
  Claim C3 as stated fails where \<open>top_k\<close> exceeds the number of indexed documents: the index
  search pads its result with the label \<open>-1\<close>, which is no key of the id-map, so \<open>search\<close>
  raises \<open>KeyError\<close> instead of returning the two documents there are.
\<close>

theorem search_beyond_index_counterexample:
  "build_index (\<lambda>t. [2, 0]) (\<lambda>i. 7) demo_engine = Inr demo_built
   \<and> load_index demo_built = Inr demo_loaded
   \<and> length (metadata demo_loaded) = 2
   \<and> search (\<lambda>t. [2, 0]) demo_loaded ''query'' 3 = Inl (IdMapKeyError (- 1))"
proof -
  have "search (\<lambda>t. [2, 0]) demo_loaded ''query'' 3 = Inl (IdMapKeyError (- 1))"
    by (rule search_beyond [OF demo_loaded_fields(1) demo_loaded_fields(2) demo_aligned]) simp_all
  then show ?thesis
    using demo_build demo_load by (simp add: demo_loaded_fields demo_engine_def)
qed

theorem search_contract_witness:
  "index demo_loaded = Some \<lparr>fi_d = 2, fi_vectors = [[0, 1], [1, 0]]\<rparr>
   \<and> id_map demo_loaded = Some (map_of [(0, ''d1''), (1, ''d2'')])
   \<and> aligned \<lparr>fi_d = 2, fi_vectors = [[0, 1], [1, 0]]\<rparr> (map_of [(0, ''d1''), (1, ''d2'')])
        (metadata demo_loaded)
   \<and> length ((\<lambda>t. [2, 0 :: real]) ''query'') = fi_d \<lparr>fi_d = 2, fi_vectors = [[0, 1], [1, 0]]\<rparr>
   \<and> search (\<lambda>t. [2, 0]) demo_loaded ''query'' 1
        = Inr [\<lparr>c_doc_id = ''d2'', c_score = 1, c_path = ''p2''\<rparr>]
   \<and> search (\<lambda>t. [2, 0]) demo_loaded ''query'' 2
        = Inr [\<lparr>c_doc_id = ''d2'', c_score = 1, c_path = ''p2''\<rparr>,
               \<lparr>c_doc_id = ''d1'', c_score = 0, c_path = ''p1''\<rparr>]
   \<and> search (\<lambda>t. [2, 0]) demo_loaded ''query'' 5 = Inl (IdMapKeyError (- 1))
   \<and> search (\<lambda>t. [2, 0]) demo_built ''query'' 1 = Inl IndexNotReady"
proof -
  have s1: "search (\<lambda>t. [2, 0]) demo_loaded ''query'' 1
        = Inr [\<lparr>c_doc_id = ''d2'', c_score = 1, c_path = ''p2''\<rparr>]"
    by (simp add: search_def demo_loaded_fields embed_query_ok unit_row_demo faiss_search_def
        upt_2 inner_product_def sorted_reverse_def demo_engine_def)
  have s2: "search (\<lambda>t. [2, 0]) demo_loaded ''query'' 2
        = Inr [\<lparr>c_doc_id = ''d2'', c_score = 1, c_path = ''p2''\<rparr>,
               \<lparr>c_doc_id = ''d1'', c_score = 0, c_path = ''p1''\<rparr>]"
    by (simp add: search_def demo_loaded_fields embed_query_ok unit_row_demo faiss_search_def
        upt_2 inner_product_def sorted_reverse_def demo_engine_def)
  have nl: "index demo_built = None" by (simp add: demo_built_def demo_engine_def)
  show ?thesis
    using search_contract [of demo_loaded "\<lambda>t. [2, 0]" "''query''" 2
            "\<lparr>fi_d = 2, fi_vectors = [[0, 1], [1, 0]]\<rparr>" "map_of [(0, ''d1''), (1, ''d2'')]"]
          search_contract [of demo_loaded "\<lambda>t. [2, 0]" "''query''" 5
            "\<lparr>fi_d = 2, fi_vectors = [[0, 1], [1, 0]]\<rparr>" "map_of [(0, ''d1''), (1, ''d2'')]"]
          search_contract [of demo_built "\<lambda>t. [2, 0]" "''query''" 1 idx ids]
          demo_aligned s1 s2 nl
    by (simp add: demo_loaded_fields)
qed

section \<open>Loading the cache\<close>

lemma load_missing: "load json_loads None = Inr Map.empty"
  by (simp add: load_def)

lemma load_unparseable:
  "utf8_valid (map of_char bytes) \<Longrightarrow> json_loads bytes = Inl JSONDecodeError \<Longrightarrow>
   load json_loads (Some bytes) = Inr Map.empty"
  by (simp add: load_def)

lemma load_other_error:
  "utf8_valid (map of_char bytes) \<Longrightarrow> json_loads bytes = Inl RecursionError \<Longrightarrow>
   load json_loads (Some bytes) = Inl RecursionError"
  by (simp add: load_def)

text \<open>
  Claim C8 holds for a missing file and for a file that decodes but does not parse, and fails
  for a corrupt file that is not UTF-8: \<open>_load\<close> catches \<open>JSONDecodeError\<close> only, and the
  \<open>UnicodeDecodeError\<close> raised while the file is read escapes. The file of the single byte
  \<open>0xFF\<close> is such a file, whatever the JSON parser does.
\<close>

theorem load_invalid_utf8_raises:
  "load json_loads (Some [CHR 0xFF]) = Inl UnicodeDecodeError"
  by (simp add: load_def)

lemma bulk_get_changed_empty:
  "meta \<in> set metas \<Longrightarrow> distinct (map m_doc_id metas) \<Longrightarrow> bulk_get_changed Map.empty metas (m_doc_id meta) = Some None"
  using bulk_get_changed_decides [of metas meta Map.empty] by (simp add: decide_def)

end
